theory Spec2Isabelle
  imports Main "HOL-Library.Sublist" "HOL-Library.Char_ord" "HOL-Library.List_Lexorder"
begin

chapter \<open>VaultStack: the encrypted synchronisation engine\<close>

text \<open>
  A shallow embedding of the parts of VaultStack that its specification makes promises
  about: the client's \<^verbatim>\<open>VaultCrypto\<close> class (lib/crypto.ts), the client's
  \<^verbatim>\<open>vaultDB\<close> helper object over the Dexie table (lib/database.ts) and the
  file server's \<^verbatim>\<open>FileEncryption\<close> class and route handlers (file-server/server.js).

  Conventions.
  \<^item> A JavaScript string is a \<^typ>\<open>string\<close>; a CryptoJS \<^verbatim>\<open>WordArray\<close> and a Node
    \<^verbatim>\<open>Buffer\<close> are lists of bytes, \<^typ>\<open>char list\<close>.
  \<^item> A raised \<^verbatim>\<open>Error\<close> is the left injection of a sum, carrying the error's message;
    \<^verbatim>\<open>try/catch\<close> is a case distinction on the sum.
  \<^item> The crypto-js primitives (PBKDF2, AES in CBC mode with PKCS7 padding, SHA-256,
    UTF-8 and Base64 codecs) are code of a third-party package. They are parameters of the
    model, collected in a record; what a theorem needs of them is a named hypothesis.
  \<^item> Every random draw, the clock and every answer of the network or of the disk is an
    explicit argument.
\<close>

section \<open>Strings\<close>

text \<open>\<^verbatim>\<open>String.prototype.split\<close> with a one-character separator: the pieces between the
  separators, so a string with \<open>n\<close> separators has \<open>n + 1\<close> pieces.\<close>

fun str_split :: "char \<Rightarrow> string \<Rightarrow> string list" where
  "str_split d [] = [[]]"
| "str_split d (c # cs) =
     (if c = d then [] # str_split d cs
      else (case str_split d cs of [] \<Rightarrow> [[c]] | p # ps \<Rightarrow> (c # p) # ps))"

text \<open>\<^verbatim>\<open>String.prototype.includes\<close>: the argument occurs as a contiguous substring.\<close>

definition str_includes :: "string \<Rightarrow> string \<Rightarrow> bool" where
  "str_includes s sub = sublist sub s"

text \<open>\<^verbatim>\<open>String(n)\<close> for a non-negative integer, and for an integer: decimal digits, with a
  leading minus sign for a negative number.\<close>

fun String_nat :: "nat \<Rightarrow> string" where
  "String_nat n =
     (if n < 10 then [''0123456789'' ! n]
      else String_nat (n div 10) @ [''0123456789'' ! (n mod 10)])"

declare String_nat.simps [simp del]

definition String_int :: "int \<Rightarrow> string" where
  "String_int i = (if i < 0 then CHR ''-'' # String_nat (nat (- i)) else String_nat (nat i))"

subsection \<open>Hexadecimal encoding of byte sequences\<close>

text \<open>\<^verbatim>\<open>WordArray.toString()\<close> is \<^verbatim>\<open>CryptoJS.enc.Hex.stringify\<close>: two lower-case digits for
  each byte. \<^verbatim>\<open>CryptoJS.enc.Hex.parse\<close> reads two characters at a time with
  \<^verbatim>\<open>parseInt(_, 16)\<close>, which accepts both cases, stops at the first character that is no
  digit, and yields NaN (stored as 0) when the first character is none.\<close>

definition hex_digit :: "nat \<Rightarrow> char" where
  "hex_digit n = ''0123456789abcdef'' ! (n mod 16)"

definition hex_value :: "char \<Rightarrow> nat option" where
  "hex_value c = map_of
     [(CHR ''0'', 0), (CHR ''1'', 1), (CHR ''2'', 2), (CHR ''3'', 3), (CHR ''4'', 4),
      (CHR ''5'', 5), (CHR ''6'', 6), (CHR ''7'', 7), (CHR ''8'', 8), (CHR ''9'', 9),
      (CHR ''a'', 10), (CHR ''b'', 11), (CHR ''c'', 12), (CHR ''d'', 13), (CHR ''e'', 14),
      (CHR ''f'', 15), (CHR ''A'', 10), (CHR ''B'', 11), (CHR ''C'', 12), (CHR ''D'', 13),
      (CHR ''E'', 14), (CHR ''F'', 15)] c"

definition hex_byte :: "char \<Rightarrow> string" where
  "hex_byte b = [hex_digit (of_char b div 16), hex_digit (of_char b mod 16)]"

definition Hex_stringify :: "char list \<Rightarrow> string" where
  "Hex_stringify bs = concat (map hex_byte bs)"

definition parseInt16 :: "string \<Rightarrow> nat" where
  "parseInt16 s = (case s of
      [] \<Rightarrow> 0
    | [a] \<Rightarrow> (case hex_value a of None \<Rightarrow> 0 | Some x \<Rightarrow> x)
    | a # b # _ \<Rightarrow> (case hex_value a of None \<Rightarrow> 0
         | Some x \<Rightarrow> (case hex_value b of None \<Rightarrow> x | Some y \<Rightarrow> 16 * x + y)))"

fun Hex_parse :: "string \<Rightarrow> char list" where
  "Hex_parse [] = []"
| "Hex_parse [a] = [char_of (parseInt16 [a])]"
| "Hex_parse (a # b # s) = char_of (parseInt16 [a, b]) # Hex_parse s"

section \<open>VaultCrypto (client, lib/crypto.ts)\<close>

type_synonym js_error = string

text \<open>
  The calls into crypto-js that \<^verbatim>\<open>VaultCrypto\<close> makes.
  \<^item> \<open>PBKDF2 pw salt\<close> is \<^verbatim>\<open>CryptoJS.PBKDF2(pw, salt, {keySize: 256/32, iterations: 10000}).toString()\<close>.
  \<^item> \<open>AES_encrypt r data key iv\<close> is
    \<^verbatim>\<open>CryptoJS.AES.encrypt(data, key, {iv: CryptoJS.enc.Hex.parse(iv), mode: CBC, padding: Pkcs7}).toString()\<close>,
    where \<open>r\<close> is the randomness the call draws itself (the key is a string, so crypto-js
    treats it as a passphrase and salts its own key derivation).
  \<^item> \<open>AES_decrypt ct key iv\<close> is
    \<^verbatim>\<open>CryptoJS.AES.decrypt(ct, key, {iv: CryptoJS.enc.Hex.parse(iv), mode: CBC, padding: Pkcs7}).toString(CryptoJS.enc.Utf8)\<close>:
    the decoded text, or the message of the error raised (\<^verbatim>\<open>Malformed UTF-8 data\<close>).
\<close>

record cryptojs =
  PBKDF2 :: "string \<Rightarrow> string \<Rightarrow> string"
  AES_encrypt :: "char list \<Rightarrow> string \<Rightarrow> string \<Rightarrow> string \<Rightarrow> string"
  AES_decrypt :: "string \<Rightarrow> string \<Rightarrow> string \<Rightarrow> js_error + string"

text \<open>What the theorems below use of crypto-js: decrypting what was encrypted, under the
  same key and initialisation vector, gives the text back; and a ciphertext prints in
  Base64, which has no colon.\<close>

definition cryptojs_ok :: "cryptojs \<Rightarrow> bool" where
  "cryptojs_ok cj \<longleftrightarrow>
     (\<forall>r d k iv. AES_decrypt cj (AES_encrypt cj r d k iv) k iv = Inr d) \<and>
     (\<forall>r d k iv. CHR '':'' \<notin> set (AES_encrypt cj r d k iv))"

text \<open>The random bytes one call of \<^verbatim>\<open>encrypt\<close> consumes: those of
  \<^verbatim>\<open>generateSalt\<close>, those of \<^verbatim>\<open>generateIV\<close>, and those drawn inside
  \<^verbatim>\<open>CryptoJS.AES.encrypt\<close>.\<close>

record entropy =
  salt_bytes :: "char list"
  iv_bytes :: "char list"
  cipher_bytes :: "char list"

definition SALT_LENGTH :: nat where "SALT_LENGTH = 32"
definition IV_LENGTH :: nat where "IV_LENGTH = 16"

definition deriveKey :: "cryptojs \<Rightarrow> string \<Rightarrow> string \<Rightarrow> string" where
  "deriveKey cj pw salt = PBKDF2 cj pw salt"

definition generateSalt :: "entropy \<Rightarrow> string" where
  "generateSalt rnd = Hex_stringify (take SALT_LENGTH (salt_bytes rnd))"

definition generateIV :: "entropy \<Rightarrow> string" where
  "generateIV rnd = Hex_stringify (take IV_LENGTH (iv_bytes rnd))"

text \<open>\<^verbatim>\<open>encrypt\<close>. crypto-js raises while encrypting only for a string that is not
  well-formed UTF-16 (a lone surrogate); the strings of this model are well-formed, so
  the \<^verbatim>\<open>catch\<close> of \<^verbatim>\<open>encrypt\<close> is not reached and \<open>encrypt\<close> is total.\<close>

definition encrypt :: "cryptojs \<Rightarrow> entropy \<Rightarrow> string \<Rightarrow> string \<Rightarrow> string" where
  "encrypt cj rnd data masterPassword =
     (let salt = generateSalt rnd;
          iv = generateIV rnd;
          key = deriveKey cj masterPassword salt;
          encrypted = AES_encrypt cj (cipher_bytes rnd) data key iv
      in salt @ '':'' @ iv @ '':'' @ encrypted)"

text \<open>\<^verbatim>\<open>decrypt\<close>: first the body of the \<^verbatim>\<open>try\<close> block, then the \<^verbatim>\<open>catch\<close>, which logs the
  error it caught and raises one fixed error in its place.\<close>

definition decrypt_try :: "cryptojs \<Rightarrow> string \<Rightarrow> string \<Rightarrow> js_error + string" where
  "decrypt_try cj encryptedData masterPassword =
     (let parts = str_split CHR '':'' encryptedData in
      if length parts \<noteq> 3 then Inl ''Ongeldig encrypted data formaat''
      else
        let salt = parts ! 0; iv = parts ! 1; encrypted = parts ! 2;
            key = deriveKey cj masterPassword salt
        in case AES_decrypt cj encrypted key iv of
             Inl e \<Rightarrow> Inl e
           | Inr decryptedString \<Rightarrow>
               if decryptedString = []
               then Inl ''Decryptie mislukt - mogelijk verkeerd wachtwoord''
               else Inr decryptedString)"

definition decrypt_error :: js_error where
  "decrypt_error = ''Kon gegevens niet ontsleutelen - controleer je master wachtwoord''"

definition decrypt :: "cryptojs \<Rightarrow> string \<Rightarrow> string \<Rightarrow> js_error + string" where
  "decrypt cj encryptedData masterPassword =
     (case decrypt_try cj encryptedData masterPassword of
        Inl e \<Rightarrow> Inl decrypt_error
      | Inr decryptedString \<Rightarrow> Inr decryptedString)"

subsection \<open>Vault items and their sensitive fields\<close>

text \<open>The \<^verbatim>\<open>VaultItem\<close> interface of lib/database.ts. The identifier is kept beside the
  item (it is the table's primary key); the fields no operation here reads
  (\<^verbatim>\<open>platform\<close>, \<^verbatim>\<open>fileData\<close>, \<^verbatim>\<open>isFavorite\<close>, \<^verbatim>\<open>orderIndex\<close>, \<^verbatim>\<open>syncStatus\<close> and the
  rest) travel in the record's extension. An optional field that is \<^verbatim>\<open>undefined\<close> is
  \<open>None\<close>.\<close>

record vault_item =
  name :: string
  category :: string
  createdAt :: int
  updatedAt :: int
  description :: "string option"
  username :: "string option"
  password :: "string option"
  url :: "string option"
  linkUrl :: "string option"
  links :: "string option"

datatype field = Password | Username | Description | Url | LinkUrl

definition sensitiveFields :: "field list" where
  "sensitiveFields = [Password, Username, Description, Url, LinkUrl]"

fun get_field :: "field \<Rightarrow> 'a vault_item_scheme \<Rightarrow> string option" where
  "get_field Password it = password it"
| "get_field Username it = username it"
| "get_field Description it = description it"
| "get_field Url it = url it"
| "get_field LinkUrl it = linkUrl it"

fun set_field :: "field \<Rightarrow> string option \<Rightarrow> 'a vault_item_scheme \<Rightarrow> 'a vault_item_scheme" where
  "set_field Password v it = it\<lparr>password := v\<rparr>"
| "set_field Username v it = it\<lparr>username := v\<rparr>"
| "set_field Description v it = it\<lparr>description := v\<rparr>"
| "set_field Url v it = it\<lparr>url := v\<rparr>"
| "set_field LinkUrl v it = it\<lparr>linkUrl := v\<rparr>"

text \<open>\<^verbatim>\<open>encryptVaultItem\<close>: a copy of the item in which every sensitive field that is truthy
  (present and not the empty string) is replaced by its envelope. Each call of
  \<^verbatim>\<open>encrypt\<close> draws its own random bytes: \<open>rnd f\<close> for field \<open>f\<close>.\<close>

definition encryptVaultItem ::
  "cryptojs \<Rightarrow> (field \<Rightarrow> entropy) \<Rightarrow> 'a vault_item_scheme \<Rightarrow> string \<Rightarrow> 'a vault_item_scheme" where
  "encryptVaultItem cj rnd item masterPassword =
     fold (\<lambda>f encryptedItem.
        case get_field f encryptedItem of
          None \<Rightarrow> encryptedItem
        | Some v \<Rightarrow>
            if v \<noteq> [] then set_field f (Some (encrypt cj (rnd f) v masterPassword)) encryptedItem
            else encryptedItem)
       sensitiveFields item"

text \<open>\<^verbatim>\<open>decryptVaultItem\<close>: a copy of the item; a sensitive field that is a non-empty
  string containing a colon is decrypted, and when \<^verbatim>\<open>decrypt\<close> raises the error is
  logged and the field keeps its value.\<close>

definition decryptVaultItem ::
  "cryptojs \<Rightarrow> 'a vault_item_scheme \<Rightarrow> string \<Rightarrow> 'a vault_item_scheme" where
  "decryptVaultItem cj encryptedItem masterPassword =
     fold (\<lambda>f decryptedItem.
        case get_field f decryptedItem of
          None \<Rightarrow> decryptedItem
        | Some v \<Rightarrow>
            if v \<noteq> [] \<and> CHR '':'' \<in> set v then
              (case decrypt cj v masterPassword of
                 Inr plain \<Rightarrow> set_field f (Some plain) decryptedItem
               | Inl e \<Rightarrow> decryptedItem)
            else decryptedItem)
       sensitiveFields encryptedItem"

text \<open>What the library's decryption yields for an envelope's third part, under the key derived
  from the password and the envelope's first part, with its second part as initialisation
  vector. It only abbreviates the right-hand sides of statements.\<close>

definition recovered :: "cryptojs \<Rightarrow> string \<Rightarrow> string \<Rightarrow> js_error + string" where
  "recovered cj env W =
     (let parts = str_split CHR '':'' env
      in AES_decrypt cj (parts ! 2) (deriveKey cj W (parts ! 0)) (parts ! 1))"

text \<open>Both loops over \<open>sensitiveFields\<close> rewrite one field at a time from its own value;
  \<open>field_step\<close> is that shape, \<open>enc_value\<close> and \<open>dec_value\<close> are what the two loops
  do to a field's value. They serve the proofs.\<close>

definition field_step ::
  "(field \<Rightarrow> string option \<Rightarrow> string option) \<Rightarrow> field \<Rightarrow> 'a vault_item_scheme \<Rightarrow> 'a vault_item_scheme" where
  "field_step h f it = set_field f (h f (get_field f it)) it"

definition enc_value ::
  "cryptojs \<Rightarrow> (field \<Rightarrow> entropy) \<Rightarrow> string \<Rightarrow> field \<Rightarrow> string option \<Rightarrow> string option" where
  "enc_value cj rnd pw f v =
     (case v of None \<Rightarrow> None
      | Some s \<Rightarrow> if s \<noteq> [] then Some (encrypt cj (rnd f) s pw) else Some s)"

definition dec_value :: "cryptojs \<Rightarrow> string \<Rightarrow> field \<Rightarrow> string option \<Rightarrow> string option" where
  "dec_value cj pw f v =
     (case v of None \<Rightarrow> None
      | Some s \<Rightarrow> if s \<noteq> [] \<and> CHR '':'' \<in> set s
                  then (case decrypt cj s pw of Inr p \<Rightarrow> Some p | Inl e \<Rightarrow> Some s) else Some s)"

section \<open>vaultDB (client, lib/database.ts)\<close>

text \<open>
  The Dexie table \<^verbatim>\<open>vaultItems\<close> (schema \<^verbatim>\<open>++id, name, category, createdAt, ...\<close>) and the
  \<^verbatim>\<open>vaultDB\<close> object around it. The table is the list of its rows in primary-key order, each
  row an identifier and an item; \<open>nextId\<close> is the table's key generator, which \<^verbatim>\<open>clear\<close> does not
  reset. \<open>session_masterPassword\<close> is \<^verbatim>\<open>vaultDB._masterPassword\<close>, the empty string when none is set.
  A date is its time value, the milliseconds \<^verbatim>\<open>getTime()\<close> returns: every item of the model
  has a valid \<^verbatim>\<open>createdAt\<close>, as the \<^verbatim>\<open>VaultItem\<close> interface requires and as \<^verbatim>\<open>new Date\<close> yields
  for the ISO string that \<^verbatim>\<open>JSON.stringify\<close> writes for a date.
\<close>

record vault_db =
  vaultItems :: "(nat \<times> vault_item) list"
  nextId :: nat
  session_masterPassword :: string

definition table_add :: "vault_item \<Rightarrow> vault_db \<Rightarrow> nat \<times> vault_db" where
  "table_add item db =
     (nextId db, db\<lparr>vaultItems := vaultItems db @ [(nextId db, item)], nextId := Suc (nextId db)\<rparr>)"

definition table_clear :: "vault_db \<Rightarrow> vault_db" where
  "table_clear db = db\<lparr>vaultItems := []\<rparr>"

definition table_bulkDelete :: "nat list \<Rightarrow> vault_db \<Rightarrow> vault_db" where
  "table_bulkDelete keys db = db\<lparr>vaultItems := filter (\<lambda>row. fst row \<notin> set keys) (vaultItems db)\<rparr>"

definition table_count :: "vault_db \<Rightarrow> nat" where
  "table_count db = length (vaultItems db)"

text \<open>\<^verbatim>\<open>orderBy('createdAt').reverse().toArray()\<close>: by descending creation time, rows of equal
  time by descending key.\<close>

definition table_newest_first :: "vault_db \<Rightarrow> (nat \<times> vault_item) list" where
  "table_newest_first db = rev (sort_key (\<lambda>row. createdAt (snd row)) (vaultItems db))"

text \<open>The key by which \<^verbatim>\<open>removeDuplicateItems\<close> tells duplicates:
  \<^verbatim>\<open>`${item.name}-${item.category}-${item.createdAt?.getTime()}`\<close>.\<close>

definition item_key :: "'a vault_item_scheme \<Rightarrow> string" where
  "item_key item = name item @ ''-'' @ category item @ ''-'' @ String_int (createdAt item)"

text \<open>The categories of the \<^verbatim>\<open>VaultItem\<close> interface.\<close>

definition categories :: "string set" where
  "categories = {''passwords'', ''notes'', ''links'', ''files''}"

text \<open>The number a string of decimal digits denotes; it serves the proof that
  \<open>String_nat\<close> is injective.\<close>

definition digit_value :: "char \<Rightarrow> nat" where
  "digit_value c = (case map_of
     [(CHR ''0'', 0), (CHR ''1'', 1), (CHR ''2'', 2), (CHR ''3'', 3), (CHR ''4'', 4),
      (CHR ''5'', 5), (CHR ''6'', 6), (CHR ''7'', 7), (CHR ''8'', 8), (CHR ''9'', 9)] c of
       None \<Rightarrow> 0 | Some d \<Rightarrow> d)"

definition digits_value :: "string \<Rightarrow> nat" where
  "digits_value s = foldl (\<lambda>acc c. 10 * acc + digit_value c) 0 s"

text \<open>One round of the loop of \<^verbatim>\<open>removeDuplicateItems\<close>, on the set \<^verbatim>\<open>seen\<close> and the array
  \<^verbatim>\<open>duplicates\<close>.\<close>

definition note_duplicate ::
  "nat \<times> vault_item \<Rightarrow> string set \<times> nat list \<Rightarrow> string set \<times> nat list" where
  "note_duplicate row acc =
     (let seen = fst acc; duplicates = snd acc; key = item_key (snd row)
      in if key \<in> seen then (seen, duplicates @ [fst row]) else (insert key seen, duplicates))"

record dedupe_result =
  removed :: nat
  remaining :: nat

definition removeDuplicateItems :: "vault_db \<Rightarrow> dedupe_result \<times> vault_db" where
  "removeDuplicateItems db =
     (let allItems = vaultItems db;
          duplicates = snd (fold note_duplicate allItems ({}, []));
          db' = (if length duplicates > 0 then table_bulkDelete duplicates db else db)
      in (\<lparr>removed = length duplicates, remaining = table_count db'\<rparr>, db'))"

text \<open>\<^verbatim>\<open>getAllItems\<close>: the duplicates are removed first, then the rows are read, and decrypted
  when a master password is set. \<^verbatim>\<open>decryptVaultItem\<close> raises nothing, so the \<^verbatim>\<open>catch\<close> around it
  is not reached.\<close>

definition getAllItems :: "cryptojs \<Rightarrow> vault_db \<Rightarrow> (nat \<times> vault_item) list \<times> vault_db" where
  "getAllItems cj db =
     (let db' = snd (removeDuplicateItems db);
          items = table_newest_first db'
      in if session_masterPassword db' = [] then (items, db')
         else (map (\<lambda>row. (fst row, decryptVaultItem cj (snd row) (session_masterPassword db'))) items, db'))"

subsection \<open>Synchronisation with the server\<close>

text \<open>What the server answers during one call: the two availability probes
  (\<^verbatim>\<open>fileServerAPI.isAvailable()\<close>, which turns every failure into \<^verbatim>\<open>false\<close>; the caller probes
  and \<^verbatim>\<open>loadVaultItemsFromServer\<close> probes again), what \<^verbatim>\<open>getVaultItems()\<close> yields (the message
  of the error it raises, or the items of the response, each with the identifier the server
  holds for it), and what \<^verbatim>\<open>saveVaultItems\<close> yields.\<close>

record server_answers =
  available :: bool
  available_again :: bool
  fetched :: "js_error + (string \<times> vault_item) list"
  saved :: "js_error + unit"

record load_result =
  load_success :: bool
  load_items :: "(string \<times> vault_item) list option"
  load_error :: "string option"

definition loadVaultItemsFromServer :: "server_answers \<Rightarrow> vault_db \<Rightarrow> load_result" where
  "loadVaultItemsFromServer srv db =
     (if session_masterPassword db = [] then
        \<lparr>load_success = False, load_items = None, load_error = Some ''Master password required''\<rparr>
      else if \<not> available_again srv then
        \<lparr>load_success = False, load_items = None, load_error = Some ''Server not available''\<rparr>
      else case fetched srv of
          Inl e \<Rightarrow> \<lparr>load_success = False, load_items = None, load_error = Some e\<rparr>
        | Inr items \<Rightarrow> \<lparr>load_success = True, load_items = Some items, load_error = None\<rparr>)"

record sync_result =
  sync_success :: bool
  synced :: nat
  sync_error :: "string option"

text \<open>\<^verbatim>\<open>syncVaultItemsFromServer\<close>: the table is cleared, every server item is added without its
  identifier (the table mints a new one), and the duplicates are removed.\<close>

definition syncVaultItemsFromServer :: "server_answers \<Rightarrow> vault_db \<Rightarrow> sync_result \<times> vault_db" where
  "syncVaultItemsFromServer srv db =
     (let loadResult = loadVaultItemsFromServer srv db in
      case load_items loadResult of
        None \<Rightarrow> (\<lparr>sync_success = False, synced = 0, sync_error = load_error loadResult\<rparr>, db)
      | Some items \<Rightarrow>
          if \<not> load_success loadResult
          then (\<lparr>sync_success = False, synced = 0, sync_error = load_error loadResult\<rparr>, db)
          else
            let db1 = table_clear db;
                db2 = fold (\<lambda>item d. snd (table_add (snd item) d)) items db1;
                db3 = snd (removeDuplicateItems db2)
            in (\<lparr>sync_success = True, synced = length items, sync_error = None\<rparr>, db3))"

record autosync_result =
  success :: bool
  action :: string
  count :: "nat option"
  error :: "string option"

definition autoSyncVaultItems :: "server_answers \<Rightarrow> vault_db \<Rightarrow> autosync_result \<times> vault_db" where
  "autoSyncVaultItems srv db =
     (if session_masterPassword db = [] then
        (\<lparr>success = False, action = ''none'', count = None, error = Some ''Master password required''\<rparr>, db)
      else if \<not> available srv then
        (\<lparr>success = True, action = ''none'', count = None,
          error = Some ''Server not available, using local data''\<rparr>, db)
      else
        let r = syncVaultItemsFromServer srv db; syncResult = fst r
        in (\<lparr>success = sync_success syncResult, action = ''loaded'',
             count = Some (synced syncResult), error = sync_error syncResult\<rparr>, snd r))"

text \<open>\<^verbatim>\<open>syncVaultItemsToServer\<close>. Beside the result and the table, the model returns what was
  handed to \<^verbatim>\<open>saveVaultItems\<close>, if it was called: the decrypted items, each with its numeric
  identifier turned into a string by \<^verbatim>\<open>String(item.id)\<close>.\<close>

record push_result =
  push_success :: bool
  push_error :: "string option"

definition syncVaultItemsToServer ::
  "cryptojs \<Rightarrow> server_answers \<Rightarrow> vault_db
     \<Rightarrow> push_result \<times> (string \<times> vault_item) list option \<times> vault_db" where
  "syncVaultItemsToServer cj srv db =
     (if session_masterPassword db = [] then
        (\<lparr>push_success = False, push_error = Some ''Master password required''\<rparr>, None, db)
      else if \<not> available srv then
        (\<lparr>push_success = False, push_error = Some ''Server not available''\<rparr>, None, db)
      else
        let r = getAllItems cj db; items = fst r;
            itemsForServer = map (\<lambda>item. (String_nat (fst item), snd item)) items
        in case saved srv of
             Inl e \<Rightarrow> (\<lparr>push_success = False, push_error = Some e\<rparr>, Some itemsForServer, snd r)
           | Inr u \<Rightarrow> (\<lparr>push_success = True, push_error = None\<rparr>, Some itemsForServer, snd r))"

text \<open>The rows \<^verbatim>\<open>removeDuplicateItems\<close> keeps and the identifiers it collects, by recursion on
  the rows with the keys seen so far; they serve the proofs.\<close>

fun kept_from :: "string set \<Rightarrow> (nat \<times> vault_item) list \<Rightarrow> (nat \<times> vault_item) list" where
  "kept_from seen [] = []"
| "kept_from seen (row # rows) =
     (if item_key (snd row) \<in> seen then kept_from seen rows
      else row # kept_from (insert (item_key (snd row)) seen) rows)"

fun dropped_from :: "string set \<Rightarrow> (nat \<times> vault_item) list \<Rightarrow> nat list" where
  "dropped_from seen [] = []"
| "dropped_from seen (row # rows) =
     (if item_key (snd row) \<in> seen then fst row # dropped_from seen rows
      else dropped_from (insert (item_key (snd row)) seen) rows)"

section \<open>The file server (file-server/server.js)\<close>

text \<open>
  The server keeps three directories: encrypted files, their encrypted metadata, and the
  encrypted vault-item snapshot with its backups. Every stored file is written by
  \<^verbatim>\<open>fs.writeJson\<close> and is the JSON of an object \<^verbatim>\<open>{encrypted, salt, iv}\<close>.

  The handlers never look into the texts they hand from one library call to the next (the JSON
  of the items, the JSON of a metadata record, the Base64 of a file) nor into a ciphertext;
  the type \<open>'t\<close> of these texts and the type \<open>'c\<close> of ciphertexts are left open.
\<close>

subsection \<open>Values, library calls, stored files\<close>

text \<open>A vault item as the server sees it: a parsed JSON object, of which the handlers read
  only the property \<^verbatim>\<open>id\<close>. An element of a parsed array is such an object or \<^verbatim>\<open>null\<close>, on
  which reading a property raises a TypeError; a number, a boolean or a string in an item's place
  has no \<^verbatim>\<open>id\<close> and is given by the properties it spreads to.\<close>

datatype jv = JStr string | JNum int | JBool bool | JNull | JOther

type_synonym jobj = "string \<Rightarrow> jv option"

datatype element = Obj jobj | Null

text \<open>What \<^verbatim>\<open>JSON.parse\<close> returns for the text of a snapshot: an array, or \<^verbatim>\<open>null\<close>, or another
  value, of which the handlers can read the property \<^verbatim>\<open>length\<close> only (\<open>Some n\<close> when it is
  the number \<open>n\<close>, as for a string of \<open>n\<close> characters) and which has none of the methods of an
  array.\<close>

datatype parsed = Array "element list" | NoArray "nat option" | NullValue

definition TypeError :: js_error where
  "TypeError = ''TypeError''"

text \<open>\<^verbatim>\<open>value.length\<close>, \<^verbatim>\<open>item.id\<close> and \<^verbatim>\<open>{...item}\<close>.\<close>

definition value_length :: "parsed \<Rightarrow> js_error + nat option" where
  "value_length v =
     (case v of Array xs \<Rightarrow> Inr (Some (length xs)) | NoArray l \<Rightarrow> Inr l | NullValue \<Rightarrow> Inl TypeError)"

definition item_id :: "element \<Rightarrow> js_error + jv option" where
  "item_id item = (case item of Obj properties \<Rightarrow> Inr (properties ''id'') | Null \<Rightarrow> Inl TypeError)"

definition spread :: "element \<Rightarrow> jobj" where
  "spread item = (case item of Obj properties \<Rightarrow> properties | Null \<Rightarrow> Map.empty)"

text \<open>\<^verbatim>\<open>Array.prototype.filter\<close> and \<^verbatim>\<open>Array.prototype.findIndex\<close> with a callback that may raise:
  the elements are visited in order and the first error ends the call.\<close>

fun array_filter :: "('a \<Rightarrow> js_error + bool) \<Rightarrow> 'a list \<Rightarrow> js_error + 'a list" where
  "array_filter p [] = Inr []"
| "array_filter p (x # xs) =
     (case p x of
        Inl e \<Rightarrow> Inl e
      | Inr keep \<Rightarrow>
          (case array_filter p xs of
             Inl e \<Rightarrow> Inl e
           | Inr ys \<Rightarrow> Inr (if keep then x # ys else ys)))"

fun findIndex :: "('a \<Rightarrow> js_error + bool) \<Rightarrow> 'a list \<Rightarrow> js_error + nat option" where
  "findIndex p [] = Inr None"
| "findIndex p (x # xs) =
     (case p x of
        Inl e \<Rightarrow> Inl e
      | Inr found \<Rightarrow>
          if found then Inr (Some 0)
          else (case findIndex p xs of
                  Inl e \<Rightarrow> Inl e
                | Inr k \<Rightarrow> Inr (map_option Suc k)))"

record file_metadata =
  m_id :: string
  m_name :: string
  m_type :: string
  m_size :: nat
  m_description :: string
  m_category :: string
  m_uploadedAt :: nat
  m_encrypted :: bool
  m_checksum :: string

text \<open>
  The library calls of the server.
  \<^item> \<open>PBKDF2_wa pw salt\<close> is \<^verbatim>\<open>crypto.PBKDF2(pw, salt, {keySize: 256/32, iterations: 10000})\<close>
    with the salt a WordArray; the result is the key, a WordArray.
  \<^item> \<open>AES_encrypt_wa data key iv\<close> is
    \<^verbatim>\<open>crypto.AES.encrypt(data, key, {iv, padding: Pkcs7, mode: CBC}).toString()\<close>.
  \<^item> \<open>AES_decrypt_wa ct key iv\<close> is
    \<^verbatim>\<open>crypto.AES.decrypt(ct, key, {iv, padding: Pkcs7, mode: CBC}).toString(crypto.enc.Utf8)\<close>:
    the text, or the message of the error raised.
  \<^item> \<open>SHA256 t\<close> is \<^verbatim>\<open>crypto.SHA256(t).toString()\<close>.
  \<^item> \<open>items_to_JSON\<close>, \<open>metadata_to_JSON\<close> are \<^verbatim>\<open>JSON.stringify\<close>; \<open>items_of_JSON\<close>,
    \<open>metadata_of_JSON\<close> are \<^verbatim>\<open>JSON.parse\<close>, yielding the value or the message of the
    SyntaxError. Of a parsed metadata object the download reads \<^verbatim>\<open>checksum\<close>, \<^verbatim>\<open>type\<close>,
    \<^verbatim>\<open>name\<close> and \<^verbatim>\<open>uploadedAt\<close>; a \<^verbatim>\<open>checksum\<close> that is missing is the empty string here (both
    are falsy), and \<^verbatim>\<open>null\<close> in place of the object counts as raising, as reading its
    \<^verbatim>\<open>checksum\<close> does.
  \<^item> \<open>base64_of_buffer b\<close> is \<^verbatim>\<open>b.toString('base64')\<close>, \<open>buffer_of_base64 t\<close> is
    \<^verbatim>\<open>Buffer.from(t, 'base64')\<close>.
\<close>

record ('t, 'c) node_lib =
  PBKDF2_wa :: "string \<Rightarrow> char list \<Rightarrow> char list"
  AES_encrypt_wa :: "'t \<Rightarrow> char list \<Rightarrow> char list \<Rightarrow> 'c"
  AES_decrypt_wa :: "'c \<Rightarrow> char list \<Rightarrow> char list \<Rightarrow> js_error + 't"
  SHA256 :: "'t \<Rightarrow> string"
  items_to_JSON :: "element list \<Rightarrow> 't"
  items_of_JSON :: "'t \<Rightarrow> js_error + parsed"
  metadata_to_JSON :: "file_metadata \<Rightarrow> 't"
  metadata_of_JSON :: "'t \<Rightarrow> js_error + file_metadata"
  base64_of_buffer :: "char list \<Rightarrow> 't"
  buffer_of_base64 :: "'t \<Rightarrow> char list"

text \<open>What the theorems use of these calls: each decoder inverts its encoder, and a SHA-256
  digest is not the empty string.\<close>

definition node_lib_ok :: "('t, 'c) node_lib \<Rightarrow> bool" where
  "node_lib_ok lib \<longleftrightarrow>
     (\<forall>d k v. AES_decrypt_wa lib (AES_encrypt_wa lib d k v) k v = Inr d) \<and>
     (\<forall>xs. items_of_JSON lib (items_to_JSON lib xs) = Inr (Array xs)) \<and>
     (\<forall>m. metadata_of_JSON lib (metadata_to_JSON lib m) = Inr m) \<and>
     (\<forall>b. buffer_of_base64 lib (base64_of_buffer lib b) = b) \<and>
     (\<forall>t. SHA256 lib t \<noteq> [])"

record 'c encrypted_data =
  encrypted :: 'c
  salt :: string
  iv :: string

text \<open>\<^verbatim>\<open>FileEncryption.encrypt\<close> and \<^verbatim>\<open>FileEncryption.decrypt\<close>. The salt and the vector are
  drawn as WordArrays and stored in hexadecimal; \<^verbatim>\<open>decrypt\<close> parses them back.\<close>

definition FileEncryption_encrypt ::
  "('t, 'c) node_lib \<Rightarrow> entropy \<Rightarrow> 't \<Rightarrow> string \<Rightarrow> 'c encrypted_data" where
  "FileEncryption_encrypt lib rnd data masterPassword =
     (let salt_wa = take (256 div 8) (salt_bytes rnd);
          key = PBKDF2_wa lib masterPassword salt_wa;
          iv_wa = take (128 div 8) (iv_bytes rnd)
      in \<lparr> encrypted = AES_encrypt_wa lib data key iv_wa,
           salt = Hex_stringify salt_wa,
           iv = Hex_stringify iv_wa \<rparr>)"

definition FileEncryption_decrypt ::
  "('t, 'c) node_lib \<Rightarrow> 'c encrypted_data \<Rightarrow> string \<Rightarrow> js_error + 't" where
  "FileEncryption_decrypt lib encryptedData masterPassword =
     (let key = PBKDF2_wa lib masterPassword (Hex_parse (salt encryptedData))
      in AES_decrypt_wa lib (encrypted encryptedData) key (Hex_parse (iv encryptedData)))"

text \<open>A file on the disk: the JSON of an \<^verbatim>\<open>{encrypted, salt, iv}\<close> object, or a file that
  cannot be read as one: bytes on which \<^verbatim>\<open>fs.readJson\<close> raises (its message is the path of the
  file followed by that of the SyntaxError), or the JSON of another value, which
  \<^verbatim>\<open>FileEncryption.decrypt\<close> cannot take apart. \<open>Garbled\<close> carries the message of the error
  raised; every handler passes an error of either call to the same \<^verbatim>\<open>catch\<close>.\<close>

datatype 'c disk_file = Json "'c encrypted_data" | Garbled js_error

definition readJson :: "'c disk_file \<Rightarrow> js_error + 'c encrypted_data" where
  "readJson f = (case f of Json d \<Rightarrow> Inr d | Garbled message \<Rightarrow> Inl message)"

text \<open>\<^verbatim>\<open>retryOperation\<close> with its default of three attempts: the first result that is no
  error, else the error of the third attempt.\<close>

definition retryOperation :: "(unit \<Rightarrow> js_error + 'a) \<Rightarrow> js_error + 'a" where
  "retryOperation operation =
     (case operation () of
        Inr r \<Rightarrow> Inr r
      | Inl e1 \<Rightarrow> (case operation () of
                     Inr r \<Rightarrow> Inr r
                   | Inl e2 \<Rightarrow> operation ()))"

record 'c storage =
  files :: "string \<Rightarrow> 'c disk_file option"
  metadata :: "string \<Rightarrow> 'c disk_file option"
  vault_items :: "'c disk_file option"
  backups :: "(nat \<times> 'c disk_file) list"

text \<open>A response that reports an error: the status, and the \<^verbatim>\<open>code\<close> of the body (its
  \<^verbatim>\<open>error\<close> text where the handler sets no code).\<close>

type_synonym http_error = "nat \<times> string"

subsection \<open>The vault-item snapshot\<close>

text \<open>The three steps by which the handlers read a stored snapshot: \<^verbatim>\<open>fs.readJson\<close>,
  \<^verbatim>\<open>FileEncryption.decrypt\<close>, \<^verbatim>\<open>JSON.parse\<close>. The update and the delete handler take them as
  they stand here; the save handler wraps the first in \<^verbatim>\<open>retryOperation\<close>.\<close>

definition read_snapshot :: "('t, 'c) node_lib \<Rightarrow> string \<Rightarrow> 'c disk_file \<Rightarrow> js_error + parsed" where
  "read_snapshot lib masterPassword f =
     (case readJson f of
        Inl e \<Rightarrow> Inl e
      | Inr encryptedItems \<Rightarrow>
          (case FileEncryption_decrypt lib encryptedItems masterPassword of
             Inl e \<Rightarrow> Inl e
           | Inr itemsJson \<Rightarrow> items_of_JSON lib itemsJson))"

text \<open>The callback of the save handler's validation:
  \<^verbatim>\<open>item => !item.id || typeof item.id !== 'string'\<close>.\<close>

definition invalid_item :: "element \<Rightarrow> js_error + bool" where
  "invalid_item item =
     (case item_id item of
        Inl e \<Rightarrow> Inl e
      | Inr v \<Rightarrow> Inr (case v of Some (JStr s) \<Rightarrow> s = [] | _ \<Rightarrow> True))"

text \<open>The backups, each kept with the time of its making; its file is
  \<^verbatim>\<open>vault-items-backup-${Date.now()}.enc\<close>. \<^verbatim>\<open>fs.copy\<close> onto a name overwrites. The clean-up
  lists the names, sorts them with \<^verbatim>\<open>sort()\<close>, which compares strings by their code units (here
  the order of \<^typ>\<open>string\<close>: lexicographic, by character code), reverses the list and removes
  the files after the fifth.\<close>

definition backup_name :: "nat \<Rightarrow> string" where
  "backup_name t = ''vault-items-backup-'' @ String_nat t @ ''.enc''"

definition backup_copy :: "nat \<Rightarrow> 'c disk_file \<Rightarrow> (nat \<times> 'c disk_file) list \<Rightarrow> (nat \<times> 'c disk_file) list" where
  "backup_copy t f bs = (t, f) # filter (\<lambda>b. fst b \<noteq> t) bs"

definition cleanup_backups :: "(nat \<times> 'c disk_file) list \<Rightarrow> (nat \<times> 'c disk_file) list" where
  "cleanup_backups bs =
     (let backupFiles = rev (sort (map (\<lambda>b. backup_name (fst b)) bs))
      in if length backupFiles > 5
         then filter (\<lambda>b. backup_name (fst b) \<notin> set (drop 5 backupFiles)) bs
         else bs)"

text \<open>The inner \<^verbatim>\<open>try\<close> block of the save handler up to the verification: encrypt, write,
  read back, decrypt, parse, compare the lengths. \<open>disk\<close> says what the file holds when it is
  read back: \<open>None\<close> when that is what the handler wrote, \<open>Some f\<close> when a disk fault or
  the write of a concurrent request has put \<open>f\<close> there. The calls that write
  (\<^verbatim>\<open>fs.copy\<close>, \<^verbatim>\<open>fs.writeJson\<close>) are taken to return.\<close>

definition write_and_verify ::
  "('t, 'c) node_lib \<Rightarrow> string \<Rightarrow> element list \<Rightarrow> entropy \<Rightarrow> 'c disk_file option \<Rightarrow> 'c storage
     \<Rightarrow> (js_error + unit) \<times> 'c storage" where
  "write_and_verify lib masterPassword items rnd disk st =
     (let encryptedItems = FileEncryption_encrypt lib rnd (items_to_JSON lib items) masterPassword;
          found = (case disk of None \<Rightarrow> Json encryptedItems | Some f \<Rightarrow> f);
          st' = st\<lparr>vault_items := Some found\<rparr>
      in case retryOperation (\<lambda>u. readJson found) of
           Inl e \<Rightarrow> (Inl e, st')
         | Inr verification \<Rightarrow>
             (case FileEncryption_decrypt lib verification masterPassword of
                Inl e \<Rightarrow> (Inl e, st')
              | Inr itemsJson \<Rightarrow>
                  (case items_of_JSON lib itemsJson of
                     Inl e \<Rightarrow> (Inl e, st')
                   | Inr verifiedItems \<Rightarrow>
                       (case value_length verifiedItems of
                          Inl e \<Rightarrow> (Inl e, st')
                        | Inr verifiedLength \<Rightarrow>
                            if verifiedLength \<noteq> Some (length items)
                            then (Inl ''Verification failed: item count mismatch'', st')
                            else (Inr (), st')))))"

record save_reply =
  itemCount :: nat
  verified :: bool

text \<open>\<^verbatim>\<open>POST /api/vault-items\<close>. \<open>body\<close> is \<^verbatim>\<open>req.body.items\<close> when it is an array, \<open>now\<close> is
  \<^verbatim>\<open>Date.now()\<close>. An error that the validation raises reaches the outer \<^verbatim>\<open>catch\<close> of the
  handler, as does the error of a failed save after the inner \<^verbatim>\<open>catch\<close> has restored the
  backup.\<close>

definition post_vault_items ::
  "('t, 'c) node_lib \<Rightarrow> string \<Rightarrow> element list option \<Rightarrow> nat \<Rightarrow> entropy \<Rightarrow> 'c disk_file option
     \<Rightarrow> 'c storage \<Rightarrow> (http_error + save_reply) \<times> 'c storage" where
  "post_vault_items lib masterPassword body now rnd disk st =
     (case body of
        None \<Rightarrow> (Inl (400, ''INVALID_ITEMS''), st)
      | Some items \<Rightarrow>
          (case array_filter invalid_item items of
             Inl e \<Rightarrow> (Inl (500, ''SAVE_ERROR''), st)
           | Inr invalidItems \<Rightarrow>
               if length invalidItems > 0 then (Inl (400, ''INVALID_ITEM_STRUCTURE''), st)
               else
                 let st1 = (case vault_items st of
                              None \<Rightarrow> st
                            | Some existing \<Rightarrow> st\<lparr>backups := backup_copy now existing (backups st)\<rparr>);
                     attempt = write_and_verify lib masterPassword items rnd disk st1;
                     st2 = snd attempt
                 in (case fst attempt of
                       Inr u \<Rightarrow>
                         (Inr \<lparr>itemCount = length items, verified = True\<rparr>,
                          st2\<lparr>backups := cleanup_backups (backups st2)\<rparr>)
                     | Inl saveError \<Rightarrow>
                         (Inl (500, ''SAVE_ERROR''),
                          (case map_of (backups st2) now of
                             Some backup \<Rightarrow> st2\<lparr>vault_items := Some backup\<rparr>
                           | None \<Rightarrow> st2)))))"

text \<open>The callbacks of the update and the delete handler: \<^verbatim>\<open>i => i.id === itemId\<close> and
  \<^verbatim>\<open>i => i.id !== itemId\<close>.\<close>

definition id_is :: "string \<Rightarrow> element \<Rightarrow> js_error + bool" where
  "id_is itemId i = (case item_id i of Inl e \<Rightarrow> Inl e | Inr v \<Rightarrow> Inr (v = Some (JStr itemId)))"

definition id_is_not :: "string \<Rightarrow> element \<Rightarrow> js_error + bool" where
  "id_is_not itemId i = (case item_id i of Inl e \<Rightarrow> Inl e | Inr v \<Rightarrow> Inr (v \<noteq> Some (JStr itemId)))"

text \<open>\<^verbatim>\<open>PUT /api/vault-items/:itemId\<close>: the item with that identifier is merged with the body's
  item, or the body's item is appended; in both cases its \<^verbatim>\<open>id\<close> is set to the path
  parameter. \<open>body\<close> is \<^verbatim>\<open>req.body.item\<close> when it is truthy, given by the properties it spreads
  to. \<open>put_items\<close> is the part of the handler between the parsing of the snapshot and the
  encryption of the new one; a value that is no array has no \<^verbatim>\<open>findIndex\<close>.\<close>

definition put_items :: "string \<Rightarrow> jobj \<Rightarrow> parsed \<Rightarrow> js_error + element list" where
  "put_items itemId item v =
     (case v of
        Array items \<Rightarrow>
          (case findIndex (id_is itemId) items of
             Inl e \<Rightarrow> Inl e
           | Inr found \<Rightarrow>
               (case found of
                  Some itemIndex \<Rightarrow>
                    Inr (items[itemIndex := Obj ((spread (items ! itemIndex) ++ item)(''id'' \<mapsto> JStr itemId))])
                | None \<Rightarrow> Inr (items @ [Obj (item(''id'' \<mapsto> JStr itemId))])))
      | NoArray l \<Rightarrow> Inl TypeError
      | NullValue \<Rightarrow> Inl TypeError)"

definition put_vault_item ::
  "('t, 'c) node_lib \<Rightarrow> string \<Rightarrow> string \<Rightarrow> jobj option \<Rightarrow> entropy \<Rightarrow> 'c storage
     \<Rightarrow> (http_error + string) \<times> 'c storage" where
  "put_vault_item lib masterPassword itemId body rnd st =
     (case body of
        None \<Rightarrow> (Inl (400, ''Item data required''), st)
      | Some item \<Rightarrow>
          (case (case vault_items st of
                   None \<Rightarrow> Inr (Array [])
                 | Some f \<Rightarrow> read_snapshot lib masterPassword f) of
             Inl e \<Rightarrow> (Inl (500, ''Failed to update vault item''), st)
           | Inr items \<Rightarrow>
               (case put_items itemId item items of
                  Inl e \<Rightarrow> (Inl (500, ''Failed to update vault item''), st)
                | Inr items' \<Rightarrow>
                    let encryptedItems =
                          FileEncryption_encrypt lib rnd (items_to_JSON lib items') masterPassword
                    in (Inr itemId, st\<lparr>vault_items := Some (Json encryptedItems)\<rparr>))))"

text \<open>\<^verbatim>\<open>DELETE /api/vault-items/:itemId\<close>. The handler reads \<^verbatim>\<open>items.length\<close> and calls
  \<^verbatim>\<open>items.filter\<close>, which a value that is no array does not have.\<close>

definition delete_vault_item ::
  "('t, 'c) node_lib \<Rightarrow> string \<Rightarrow> string \<Rightarrow> entropy \<Rightarrow> 'c storage
     \<Rightarrow> (http_error + string) \<times> 'c storage" where
  "delete_vault_item lib masterPassword itemId rnd st =
     (case vault_items st of
        None \<Rightarrow> (Inl (404, ''No vault items found''), st)
      | Some f \<Rightarrow>
          (case read_snapshot lib masterPassword f of
             Inl e \<Rightarrow> (Inl (500, ''Failed to delete vault item''), st)
           | Inr v \<Rightarrow>
               (case v of
                  Array items \<Rightarrow>
                    (case array_filter (id_is_not itemId) items of
                       Inl e \<Rightarrow> (Inl (500, ''Failed to delete vault item''), st)
                     | Inr items' \<Rightarrow>
                         if length items' = length items then (Inl (404, ''Item not found''), st)
                         else
                           let encryptedUpdatedItems =
                                 FileEncryption_encrypt lib rnd (items_to_JSON lib items') masterPassword
                           in (Inr itemId, st\<lparr>vault_items := Some (Json encryptedUpdatedItems)\<rparr>))
                | NoArray l \<Rightarrow> (Inl (500, ''Failed to delete vault item''), st)
                | NullValue \<Rightarrow> (Inl (500, ''Failed to delete vault item''), st))))"

text \<open>The snapshot as a request under the given password reads it (the empty array when there
  is no file, as in the update handler), the property the snapshot operations are to keep, and
  the request body of the client's push as the server parses it: \<open>props\<close> gives the JSON
  properties of an item other than \<^verbatim>\<open>id\<close>.\<close>

definition stored_items :: "('t, 'c) node_lib \<Rightarrow> string \<Rightarrow> 'c storage \<Rightarrow> js_error + parsed" where
  "stored_items lib masterPassword st =
     (case vault_items st of None \<Rightarrow> Inr (Array []) | Some f \<Rightarrow> read_snapshot lib masterPassword f)"

definition has_string_id :: "element \<Rightarrow> bool" where
  "has_string_id item =
     (case item of
        Obj properties \<Rightarrow> (case properties ''id'' of Some (JStr s) \<Rightarrow> True | _ \<Rightarrow> False)
      | Null \<Rightarrow> False)"

definition string_ids :: "('t, 'c) node_lib \<Rightarrow> string \<Rightarrow> 'c storage \<Rightarrow> bool" where
  "string_ids lib masterPassword st =
     (case stored_items lib masterPassword st of
        Inl e \<Rightarrow> True
      | Inr v \<Rightarrow>
          (case v of
             Array items \<Rightarrow> list_all has_string_id items
           | NoArray l \<Rightarrow> True
           | NullValue \<Rightarrow> True))"

definition request_items :: "(vault_item \<Rightarrow> jobj) \<Rightarrow> (string \<times> vault_item) list \<Rightarrow> element list" where
  "request_items props itemsForServer =
     map (\<lambda>item. Obj ((props (snd item))(''id'' \<mapsto> JStr (fst item)))) itemsForServer"

text \<open>The \<^verbatim>\<open>length\<close> that the verification of a save finds when the file it reads back is
  \<open>f\<close>: \<open>None\<close> when reading, decrypting or parsing raises, when the value parsed is
  \<^verbatim>\<open>null\<close>, or when it has no number for its \<^verbatim>\<open>length\<close>. It serves the statements.\<close>

definition verified_length :: "('t, 'c) node_lib \<Rightarrow> string \<Rightarrow> 'c disk_file \<Rightarrow> nat option" where
  "verified_length lib masterPassword f =
     (case read_snapshot lib masterPassword f of
        Inl e \<Rightarrow> None
      | Inr v \<Rightarrow> (case value_length v of Inl e \<Rightarrow> None | Inr l \<Rightarrow> l))"

subsection \<open>Files\<close>

record upload =
  originalname :: string
  mimetype :: string
  file_size :: nat
  buffer :: "char list"

record upload_reply =
  up_fileId :: string
  up_name :: string
  up_size :: nat
  up_type :: string

text \<open>\<^verbatim>\<open>POST /api/files/upload\<close>. \<open>fileId\<close> is the identifier \<^verbatim>\<open>uuidv4()\<close> returns, \<open>now\<close> the
  time of the upload, \<open>body_description\<close> and \<open>body_category\<close> are the two fields of
  \<^verbatim>\<open>req.body\<close>.\<close>

definition upload_file ::
  "('t, 'c) node_lib \<Rightarrow> string \<Rightarrow> upload option \<Rightarrow> string option \<Rightarrow> string option \<Rightarrow> string
     \<Rightarrow> nat \<Rightarrow> entropy \<Rightarrow> entropy \<Rightarrow> 'c storage \<Rightarrow> (http_error + upload_reply) \<times> 'c storage" where
  "upload_file lib masterPassword file body_description body_category fileId now rnd rnd' st =
     (case file of
        None \<Rightarrow> (Inl (400, ''NO_FILE''), st)
      | Some f \<Rightarrow>
          if file_size f > 100 * 1024 * 1024 then (Inl (413, ''FILE_TOO_LARGE''), st)
          else
            let fileDataBase64 = base64_of_buffer lib (buffer f);
                encryptedFile = FileEncryption_encrypt lib rnd fileDataBase64 masterPassword;
                meta = \<lparr> m_id = fileId, m_name = originalname f, m_type = mimetype f,
                         m_size = file_size f,
                         m_description = (case body_description of None \<Rightarrow> [] | Some d \<Rightarrow> d),
                         m_category = (case body_category of None \<Rightarrow> ''files''
                                       | Some c \<Rightarrow> if c = [] then ''files'' else c),
                         m_uploadedAt = now, m_encrypted = True,
                         m_checksum = SHA256 lib fileDataBase64 \<rparr>;
                encryptedMetadata =
                  FileEncryption_encrypt lib rnd' (metadata_to_JSON lib meta) masterPassword
            in (Inr \<lparr>up_fileId = fileId, up_name = originalname f, up_size = file_size f,
                      up_type = mimetype f\<rparr>,
                st\<lparr>files := (files st)(fileId \<mapsto> Json encryptedFile),
                   metadata := (metadata st)(fileId \<mapsto> Json encryptedMetadata)\<rparr>))"

record download =
  content :: "char list"
  content_type :: string
  filename :: string

text \<open>\<^verbatim>\<open>GET /api/files/:fileId\<close>: the body of the \<^verbatim>\<open>try\<close> block after the two files were found
  (it raises, or answers with the integrity error, or sends the file), then the handler
  with its \<^verbatim>\<open>catch\<close>.\<close>

definition download_try ::
  "('t, 'c) node_lib \<Rightarrow> string \<Rightarrow> 'c disk_file \<Rightarrow> 'c disk_file \<Rightarrow> js_error + (http_error + download)" where
  "download_try lib masterPassword file meta =
     (case retryOperation (\<lambda>u. readJson meta) of
        Inl e \<Rightarrow> Inl e
      | Inr encryptedMetadata \<Rightarrow>
     (case retryOperation (\<lambda>u. FileEncryption_decrypt lib encryptedMetadata masterPassword) of
        Inl e \<Rightarrow> Inl e
      | Inr metadataJson \<Rightarrow>
     (case metadata_of_JSON lib metadataJson of
        Inl e \<Rightarrow> Inl e
      | Inr fileMetadata \<Rightarrow>
     (case retryOperation (\<lambda>u. readJson file) of
        Inl e \<Rightarrow> Inl e
      | Inr encryptedFile \<Rightarrow>
     (case retryOperation (\<lambda>u. FileEncryption_decrypt lib encryptedFile masterPassword) of
        Inl e \<Rightarrow> Inl e
      | Inr fileDataBase64 \<Rightarrow>
          let fileBuffer = buffer_of_base64 lib fileDataBase64 in
          if m_checksum fileMetadata \<noteq> [] \<and> SHA256 lib fileDataBase64 \<noteq> m_checksum fileMetadata
          then Inr (Inl (500, ''INTEGRITY_ERROR''))
          else Inr (Inr \<lparr>content = fileBuffer, content_type = m_type fileMetadata,
                           filename = m_name fileMetadata\<rparr>))))))"

definition get_file ::
  "('t, 'c) node_lib \<Rightarrow> string \<Rightarrow> string \<Rightarrow> 'c storage \<Rightarrow> http_error + download" where
  "get_file lib masterPassword fileId st =
     (if length fileId < 10 then Inl (400, ''INVALID_FILE_ID'')
      else case files st fileId of
          None \<Rightarrow> Inl (404, ''FILE_NOT_FOUND'')
        | Some file \<Rightarrow>
            (case metadata st fileId of
               None \<Rightarrow> Inl (404, ''FILE_NOT_FOUND'')
             | Some meta \<Rightarrow>
                 (case download_try lib masterPassword file meta of
                    Inr response \<Rightarrow> response
                  | Inl message \<Rightarrow>
                      if str_includes message ''decrypt'' then Inl (401, ''DECRYPTION_ERROR'')
                      else Inl (500, ''DOWNLOAD_ERROR''))))"

section \<open>A reference instance of the library parameters\<close>

text \<open>A small stand-in for crypto-js, on which the model can be evaluated. The key is the
  password followed by the salt; a ciphertext is the key followed by the text, printed in
  hexadecimal; decrypting drops as many bytes as the key at hand is long. Like AES in CBC mode
  it returns the text under the right key and carries no authentication tag, so under another key
  it returns other bytes.\<close>

definition toy_cryptojs :: cryptojs where
  "toy_cryptojs =
     \<lparr> PBKDF2 = (\<lambda>pw salt. pw @ salt),
       AES_encrypt = (\<lambda>r d k iv. Hex_stringify (k @ d)),
       AES_decrypt = (\<lambda>ct k iv. Inr (drop (length k) (Hex_parse ct))) \<rparr>"

definition toy_entropy :: entropy where
  "toy_entropy = \<lparr> salt_bytes = ''S'', iv_bytes = ''I'', cipher_bytes = ''C'' \<rparr>"

text \<open>Scenario A of the specification: the item added under the master password
  \<^verbatim>\<open>Tr0ub4dor&3\<close>, here with the empty description the entry form supplies.\<close>

definition gmail :: vault_item where
  "gmail = \<lparr> name = ''Gmail'', category = ''passwords'', createdAt = 1700000000000,
       updatedAt = 1700000000000, description = Some [], username = Some ''me@x.com'',
       password = Some ''p@ss'', url = None, linkUrl = None, links = None \<rparr>"

text \<open>A second copy of the same item, as a double import leaves it, and a note.\<close>

definition memo :: vault_item where
  "memo = \<lparr> name = ''Memo'', category = ''notes'', createdAt = 1700000000500,
       updatedAt = 1700000000500, description = Some ''buy milk'', username = None,
       password = None, url = None, linkUrl = None, links = None \<rparr>"

definition cluttered_db :: vault_db where
  "cluttered_db = \<lparr> vaultItems = [(1, gmail), (2, memo), (3, gmail), (4, gmail)], nextId = 5,
       session_masterPassword = ''Tr0ub4dor&3'' \<rparr>"

text \<open>A server that answers with a snapshot of two different items, and one whose snapshot
  holds the same item under two identifiers.\<close>

definition healthy_server :: server_answers where
  "healthy_server = \<lparr> available = True, available_again = True,
       fetched = Inr [(''7'', gmail), (''8'', memo)], saved = Inr () \<rparr>"

definition twin_server :: server_answers where
  "twin_server = \<lparr> available = True, available_again = True,
       fetched = Inr [(''1'', gmail), (''2'', gmail)], saved = Inr () \<rparr>"

text \<open>A stand-in for the server's library calls: a text is the value it encodes, a ciphertext
  is the text with the key, and decrypting under another key raises what crypto-js raises on
  bytes that are no UTF-8.\<close>

datatype toy_text = ItemsText "element list" | MetadataText file_metadata | Base64Text "char list"

definition toy_node :: "(toy_text, toy_text \<times> char list) node_lib" where
  "toy_node =
     \<lparr> PBKDF2_wa = (\<lambda>pw s. pw @ s),
       AES_encrypt_wa = (\<lambda>d k v. (d, k)),
       AES_decrypt_wa = (\<lambda>ct k v. if snd ct = k then Inr (fst ct) else Inl ''Malformed UTF-8 data''),
       SHA256 = (\<lambda>t. case t of Base64Text b \<Rightarrow> ''sha256:'' @ b | _ \<Rightarrow> ''sha256''),
       items_to_JSON = ItemsText,
       items_of_JSON = (\<lambda>t. case t of ItemsText xs \<Rightarrow> Inr (Array xs) | _ \<Rightarrow> Inl ''Unexpected token''),
       metadata_to_JSON = MetadataText,
       metadata_of_JSON = (\<lambda>t. case t of MetadataText m \<Rightarrow> Inr m | _ \<Rightarrow> Inl ''Unexpected token''),
       base64_of_buffer = Base64Text,
       buffer_of_base64 = (\<lambda>t. case t of Base64Text b \<Rightarrow> b | _ \<Rightarrow> []) \<rparr>"

definition empty_storage :: "(toy_text \<times> char list) storage" where
  "empty_storage = \<lparr> files = Map.empty, metadata = Map.empty, vault_items = None, backups = [] \<rparr>"


definition numbered_item :: jobj where
  "numbered_item = [''id'' \<mapsto> JNum 7, ''name'' \<mapsto> JStr ''Gmail'']"

text \<open>A file of which the first byte, the opening brace, was overwritten.\<close>

definition torn_file :: "(toy_text \<times> char list) disk_file" where
  "torn_file = Garbled ''vault-storage/files/0b9d2c1e-7a54-4c3f-9e21-5d6f7a8b9c0d.enc: Unexpected token x in JSON at position 0''"





text \<open>Scenario C of the specification: a text file of twelve bytes.\<close>

definition hello_file :: upload where
  "hello_file = \<lparr> originalname = ''hello.txt'', mimetype = ''text/plain'', file_size = 12,
       buffer = ''Hello, vault'' \<rparr>"

definition hello_id :: string where
  "hello_id = ''0b9d2c1e-7a54-4c3f-9e21-5d6f7a8b9c0d''"

section \<open>Lemmas on strings\<close>

lemma nibble_cases:
  assumes "(n::nat) < 16"
  shows "n \<in> {0, 1, 2, 3, 4, 5, 6, 7, 8, 9, 10, 11, 12, 13, 14, 15}"
  using assms by simp arith

lemma hex_value_digit: "n < 16 \<Longrightarrow> hex_value (hex_digit n) = Some n"
  by (drule nibble_cases) (elim insertE emptyE; simp add: hex_value_def hex_digit_def)

lemma hex_digit_no_colon: "hex_digit n \<noteq> CHR '':''"
proof -
  have "n mod 16 < 16" by simp
  from nibble_cases [OF this] show ?thesis
    unfolding hex_digit_def by (elim insertE emptyE; simp)
qed

lemma of_char_below: "(of_char b :: nat) < 256"
proof -
  have "(of_char b :: nat) mod 256 < 256" by simp
  then show ?thesis by (simp only: of_char_mod_256)
qed

lemma parse_hex_byte: "parseInt16 (hex_byte b) = of_char b"
proof -
  have "(of_char b :: nat) div 16 < 16"
    using of_char_below [of b] by (simp add: div_less_iff_less_mult)
  then show ?thesis
    by (simp add: parseInt16_def hex_byte_def hex_value_digit)
qed

lemma Hex_parse_stringify: "Hex_parse (Hex_stringify bs) = bs"
proof (induction bs)
  case Nil
  show ?case by (simp add: Hex_stringify_def)
next
  case (Cons b bs)
  have "Hex_parse (Hex_stringify (b # bs)) =
          char_of (parseInt16 (hex_byte b)) # Hex_parse (Hex_stringify bs)"
    by (simp add: Hex_stringify_def hex_byte_def)
  with Cons show ?case by (simp add: parse_hex_byte)
qed

lemma Hex_stringify_no_colon: "CHR '':'' \<notin> set (Hex_stringify bs)"
proof -
  have "CHR '':'' \<noteq> hex_digit n" for n
    using hex_digit_no_colon [of n] by simp
  then show ?thesis
    by (auto simp: Hex_stringify_def hex_byte_def)
qed

lemma str_split_nonempty: "str_split d s \<noteq> []"
  by (induction s) (auto split: list.splits)

lemma str_split_no_sep: "d \<notin> set s \<Longrightarrow> str_split d s = [s]"
  by (induction s) auto

lemma str_split_append: "d \<notin> set a \<Longrightarrow> str_split d (a @ d # b) = a # str_split d b"
  by (induction a) auto

lemma str_split_three:
  assumes "d \<notin> set a" "d \<notin> set b" "d \<notin> set c"
  shows "str_split d (a @ d # b @ d # c) = [a, b, c]"
  using assms by (simp add: str_split_append str_split_no_sep)

section \<open>VaultCrypto: envelopes\<close>

lemma toy_cryptojs_ok: "cryptojs_ok toy_cryptojs"
  by (simp add: cryptojs_ok_def toy_cryptojs_def Hex_parse_stringify Hex_stringify_no_colon)

lemma encrypt_parts:
  assumes "cryptojs_ok cj"
  shows "str_split CHR '':'' (encrypt cj rnd d pw) =
           [generateSalt rnd, generateIV rnd,
            AES_encrypt cj (cipher_bytes rnd) d (deriveKey cj pw (generateSalt rnd)) (generateIV rnd)]"
proof -
  have c: "CHR '':'' \<notin> set (AES_encrypt cj r d k iv)" for r d k iv
    using assms by (simp add: cryptojs_ok_def)
  show ?thesis
    using str_split_three [OF Hex_stringify_no_colon Hex_stringify_no_colon c]
    by (simp add: encrypt_def generateSalt_def generateIV_def Let_def)
qed

lemma decrypt_of_encrypt:
  assumes "cryptojs_ok cj"
  shows "decrypt cj (encrypt cj rnd d pw) pw' =
     (case AES_decrypt cj
             (AES_encrypt cj (cipher_bytes rnd) d (deriveKey cj pw (generateSalt rnd)) (generateIV rnd))
             (deriveKey cj pw' (generateSalt rnd)) (generateIV rnd) of
        Inl e \<Rightarrow> Inl decrypt_error
      | Inr s \<Rightarrow> if s = [] then Inl decrypt_error else Inr s)"
  by (simp add: decrypt_def decrypt_try_def encrypt_parts [OF assms] Let_def split: sum.splits)

lemma decrypt_of_encrypt_same:
  assumes "cryptojs_ok cj"
  shows "decrypt cj (encrypt cj rnd d pw) pw = (if d = [] then Inl decrypt_error else Inr d)"
proof -
  have "AES_decrypt cj (AES_encrypt cj r d k iv) k iv = Inr d" for r k iv
    using assms by (simp add: cryptojs_ok_def)
  then show ?thesis by (simp add: decrypt_of_encrypt [OF assms])
qed

text \<open>
  \<^bold>\<open>C1\<close> (as amended). The claim reads: for every plaintext \<open>P\<close> and password \<open>W\<close>,
  \<open>decrypt(encrypt(P, W), W) = P\<close>. \<^verbatim>\<open>decrypt\<close> rejects a text that decodes to the empty
  string (\<^verbatim>\<open>if (!decryptedString) throw\<close>), so the round trip holds for every non-empty
  plaintext and every password, whatever random salt and vector \<^verbatim>\<open>encrypt\<close> drew; the empty
  plaintext is encrypted to an envelope that \<^verbatim>\<open>decrypt\<close> refuses.
\<close>

theorem decrypt_encrypt_roundtrip:
  assumes "cryptojs_ok cj" and "P \<noteq> []"
  shows "decrypt cj (encrypt cj rnd P W) W = Inr P"
  using assms by (simp add: decrypt_of_encrypt_same)

theorem decrypt_encrypt_roundtrip_witness:
  "cryptojs_ok toy_cryptojs \<and> ''p@ss'' \<noteq> [] \<and>
   decrypt toy_cryptojs (encrypt toy_cryptojs toy_entropy ''p@ss'' ''Tr0ub4dor&3'') ''Tr0ub4dor&3'' = Inr ''p@ss''"
  using decrypt_encrypt_roundtrip [OF toy_cryptojs_ok, of "''p@ss''" toy_entropy "''Tr0ub4dor&3''"]
    toy_cryptojs_ok by simp

theorem roundtrip_empty_plaintext_counterexample:
  "cryptojs_ok toy_cryptojs \<and>
   decrypt toy_cryptojs (encrypt toy_cryptojs toy_entropy [] ''Tr0ub4dor&3'') ''Tr0ub4dor&3'' = Inl decrypt_error"
  using toy_cryptojs_ok by (simp add: decrypt_of_encrypt_same)

text \<open>
  \<^bold>\<open>C3\<close> (as amended). \<^verbatim>\<open>decrypt(e, W)\<close> fails, always with the one error of its \<^verbatim>\<open>catch\<close>,
  exactly when \<open>e\<close> does not split into exactly three colon-separated parts, or the library's
  decryption under the key derived from \<open>W\<close> and \<open>e\<close>'s salt raises, or it yields the empty
  string. Whenever \<^verbatim>\<open>decrypt\<close> returns, it returns what the library decoded. For an envelope
  made by \<^verbatim>\<open>encrypt\<close> under \<open>W1\<close>, what is decoded under \<open>W2\<close> is the library's decryption of
  the ciphertext under the key of \<open>W2\<close>: the code holds no check of its own that the password
  is the right one, so a wrong password fails only when that decoding raises or is empty.
\<close>

theorem decrypt_fails_exactly_when:
  "(isl (decrypt cj env W) \<longleftrightarrow>
      length (str_split CHR '':'' env) \<noteq> 3 \<or> isl (recovered cj env W) \<or> recovered cj env W = Inr [])
   \<and> (\<forall>e. decrypt cj env W = Inl e \<longrightarrow> e = decrypt_error)
   \<and> (\<forall>s. decrypt cj env W = Inr s \<longrightarrow> recovered cj env W = Inr s)
   \<and> (cryptojs_ok cj \<longrightarrow>
        recovered cj (encrypt cj rnd P W1) W2 =
          AES_decrypt cj
            (AES_encrypt cj (cipher_bytes rnd) P (deriveKey cj W1 (generateSalt rnd)) (generateIV rnd))
            (deriveKey cj W2 (generateSalt rnd)) (generateIV rnd))"
proof (intro conjI allI impI)
  show "isl (decrypt cj env W) \<longleftrightarrow>
      length (str_split CHR '':'' env) \<noteq> 3 \<or> isl (recovered cj env W) \<or> recovered cj env W = Inr []"
    by (auto simp: decrypt_def decrypt_try_def recovered_def Let_def split: sum.splits if_splits)
next
  fix e assume "decrypt cj env W = Inl e"
  then show "e = decrypt_error"
    by (auto simp: decrypt_def split: sum.splits)
next
  fix s assume "decrypt cj env W = Inr s"
  then show "recovered cj env W = Inr s"
    by (auto simp: decrypt_def decrypt_try_def recovered_def Let_def split: sum.splits if_splits)
next
  assume "cryptojs_ok cj"
  then show "recovered cj (encrypt cj rnd P W1) W2 =
          AES_decrypt cj
            (AES_encrypt cj (cipher_bytes rnd) P (deriveKey cj W1 (generateSalt rnd)) (generateIV rnd))
            (deriveKey cj W2 (generateSalt rnd)) (generateIV rnd)"
    by (simp add: recovered_def encrypt_parts Let_def)
qed

theorem decrypt_fails_exactly_when_witness:
  "cryptojs_ok toy_cryptojs \<and>
   length (str_split CHR '':'' ''abc'') = 1 \<and> isl (decrypt toy_cryptojs ''abc'' ''pw'') \<and>
   recovered toy_cryptojs (encrypt toy_cryptojs toy_entropy ''p@ss'' ''Tr0ub4dor&3'') ''Tr0ub4dor&3''
     = Inr ''p@ss''"
proof -
  note h = decrypt_fails_exactly_when [of toy_cryptojs _ _ toy_entropy "''p@ss''" "''Tr0ub4dor&3''" "''Tr0ub4dor&3''"]
  note fails = h [of "''abc''" "''pw''", THEN conjunct1]
  note rec = h [of "''abc''" "''pw''", THEN conjunct2, THEN conjunct2, THEN conjunct2, THEN mp, OF toy_cryptojs_ok]
  have l: "length (str_split CHR '':'' ''abc'') = 1" by simp
  have a: "AES_decrypt toy_cryptojs (AES_encrypt toy_cryptojs r d k iv) k iv = Inr d" for r d k iv
    using toy_cryptojs_ok by (simp add: cryptojs_ok_def)
  from fails l have "isl (decrypt toy_cryptojs ''abc'' ''pw'')" by simp
  with rec l toy_cryptojs_ok show ?thesis by (simp add: a)
qed

text \<open>The claim's last part fails: decrypting under another password can return a non-empty
  string that is not the plaintext.\<close>

theorem wrong_password_returns_text_counterexample:
  "cryptojs_ok toy_cryptojs \<and>
   decrypt toy_cryptojs (encrypt toy_cryptojs toy_entropy ''p@ss'' ''Tr0ub4dor&3'') ''wrong''
     = Inr ''or&353p@ss''"
proof -
  have "decrypt toy_cryptojs (encrypt toy_cryptojs toy_entropy ''p@ss'' ''Tr0ub4dor&3'') ''wrong''
     = Inr ''or&353p@ss''"
    by code_simp
  with toy_cryptojs_ok show ?thesis by simp
qed

text \<open>
  \<^bold>\<open>C7\<close> (as amended). For every input that does not split into exactly three
  colon-separated parts \<^verbatim>\<open>decrypt\<close> fails; the error it raises is the one error every failure
  of \<^verbatim>\<open>decrypt\<close> raises. The error \<^verbatim>\<open>Ongeldig encrypted data formaat\<close> is raised inside the
  \<^verbatim>\<open>try\<close> block and replaced by its \<^verbatim>\<open>catch\<close>, so a caller cannot tell a malformed envelope
  from a wrong password or a damaged ciphertext.
\<close>

theorem malformed_envelope_same_error:
  "(length (str_split CHR '':'' env) \<noteq> 3 \<longrightarrow> decrypt cj env W = Inl decrypt_error)
   \<and> (\<forall>env' W' e. decrypt cj env' W' = Inl e \<longrightarrow> e = decrypt_error)"
  by (auto simp: decrypt_def decrypt_try_def Let_def split: sum.splits)

theorem malformed_envelope_same_error_witness:
  "length (str_split CHR '':'' ''not-an-envelope'') \<noteq> 3 \<and>
   decrypt toy_cryptojs ''not-an-envelope'' ''Tr0ub4dor&3'' = Inl decrypt_error"
proof -
  have l: "length (str_split CHR '':'' ''not-an-envelope'') \<noteq> 3" by simp
  from malformed_envelope_same_error [of "''not-an-envelope''" toy_cryptojs "''Tr0ub4dor&3''",
      THEN conjunct1, THEN mp, OF l] l
  show ?thesis by simp
qed

text \<open>A malformed input, and a well-formed envelope opened with another password, raise the
  same error.\<close>

theorem indistinguishable_errors_counterexample:
  "length (str_split CHR '':'' ''abc'') = 1 \<and>
   decrypt toy_cryptojs ''abc'' ''ab'' = Inl decrypt_error \<and>
   length (str_split CHR '':'' (encrypt toy_cryptojs toy_entropy ''x'' ''a'')) = 3 \<and>
   decrypt toy_cryptojs (encrypt toy_cryptojs toy_entropy ''x'' ''a'') ''ab'' = Inl decrypt_error"
proof -
  have "decrypt toy_cryptojs ''abc'' ''ab'' = Inl decrypt_error"
    by code_simp
  moreover have "decrypt toy_cryptojs (encrypt toy_cryptojs toy_entropy ''x'' ''a'') ''ab'' = Inl decrypt_error"
    by code_simp
  moreover have "length (str_split CHR '':'' (encrypt toy_cryptojs toy_entropy ''x'' ''a'')) = 3"
    using toy_cryptojs_ok by (simp add: encrypt_parts)
  ultimately show ?thesis by simp
qed

section \<open>VaultCrypto: records\<close>

lemma get_set_field:
  "get_field f' (set_field f v it) = (if f' = f then v else get_field f' it)"
  by (cases f; cases f'; simp)

lemma set_get_field: "set_field f (get_field f it) it = it"
  by (cases f; simp)

lemma set_field_others:
  "name (set_field f v it) = name it" "category (set_field f v it) = category it"
  "createdAt (set_field f v it) = createdAt it" "updatedAt (set_field f v it) = updatedAt it"
  "links (set_field f v it) = links it" "vault_item.more (set_field f v it) = vault_item.more it"
  by (cases f; simp)+

lemma fold_field_step_get:
  "distinct fs \<Longrightarrow>
   get_field f (fold (field_step h) fs it) = (if f \<in> set fs then h f (get_field f it) else get_field f it)"
  by (induction fs arbitrary: it) (auto simp: field_step_def get_set_field)

lemma fold_field_step_others:
  "name (fold (field_step h) fs it) = name it"
  "category (fold (field_step h) fs it) = category it"
  "createdAt (fold (field_step h) fs it) = createdAt it"
  "updatedAt (fold (field_step h) fs it) = updatedAt it"
  "links (fold (field_step h) fs it) = links it"
  "vault_item.more (fold (field_step h) fs it) = vault_item.more it"
  by (induction fs arbitrary: it; simp add: field_step_def set_field_others)+

lemma sensitive_all: "f \<in> set sensitiveFields" "distinct sensitiveFields"
  by (cases f; simp add: sensitiveFields_def) (simp add: sensitiveFields_def)

lemma enc_step_eq:
  "(case get_field f it of
      None \<Rightarrow> it
    | Some v \<Rightarrow> if v \<noteq> [] then set_field f (Some (encrypt cj (rnd f) v pw)) it else it)
   = field_step (enc_value cj rnd pw) f it"
  using set_get_field [of f it]
  by (auto simp: field_step_def enc_value_def split: option.splits)

lemma dec_step_eq:
  "(case get_field f it of
      None \<Rightarrow> it
    | Some v \<Rightarrow>
        if v \<noteq> [] \<and> CHR '':'' \<in> set v then
          (case decrypt cj v pw of Inr plain \<Rightarrow> set_field f (Some plain) it | Inl e \<Rightarrow> it)
        else it)
   = field_step (dec_value cj pw) f it"
  using set_get_field [of f it]
  by (auto simp: field_step_def dec_value_def split: option.splits sum.splits)

lemma encryptVaultItem_as_step:
  "encryptVaultItem cj rnd item pw = fold (field_step (enc_value cj rnd pw)) sensitiveFields item"
  unfolding encryptVaultItem_def enc_step_eq ..

lemma decryptVaultItem_as_step:
  "decryptVaultItem cj item pw = fold (field_step (dec_value cj pw)) sensitiveFields item"
  unfolding decryptVaultItem_def dec_step_eq ..

lemma get_field_encryptVaultItem:
  "get_field f (encryptVaultItem cj rnd item pw) = enc_value cj rnd pw f (get_field f item)"
  by (simp add: encryptVaultItem_as_step fold_field_step_get sensitive_all)

lemma get_field_decryptVaultItem:
  "get_field f (decryptVaultItem cj item pw) = dec_value cj pw f (get_field f item)"
  by (simp add: decryptVaultItem_as_step fold_field_step_get sensitive_all)

lemma vault_item_eqI:
  fixes a b :: "'a vault_item_scheme"
  assumes "\<And>f. get_field f a = get_field f b"
    and "name a = name b" "category a = category b" "createdAt a = createdAt b"
    "updatedAt a = updatedAt b" "links a = links b" "vault_item.more a = vault_item.more b"
  shows "a = b"
  using assms(1) [of Password] assms(1) [of Username] assms(1) [of Description]
    assms(1) [of Url] assms(1) [of LinkUrl] assms(2-)
  by (intro vault_item.equality) simp_all

lemma colon_in_envelope: "CHR '':'' \<in> set (encrypt cj rnd d pw)" "encrypt cj rnd d pw \<noteq> []"
  by (simp_all add: encrypt_def Let_def)

lemma length_split_envelope:
  "cryptojs_ok cj \<Longrightarrow> length (str_split CHR '':'' (encrypt cj rnd d pw)) = 3"
  by (simp add: encrypt_parts)

lemma dec_enc_value:
  assumes "cryptojs_ok cj"
  shows "dec_value cj pw f (enc_value cj rnd pw f v) = v"
  by (cases v) (simp_all add: dec_value_def enc_value_def colon_in_envelope
      decrypt_of_encrypt_same [OF assms])

lemma dec_value_failed:
  assumes "isl (decrypt cj c pw)"
  shows "dec_value cj pw f (Some c) = Some c"
  using assms by (auto simp: dec_value_def split: sum.splits)

text \<open>
  \<^bold>\<open>C8\<close> (as amended). \<^verbatim>\<open>encryptVaultItem\<close> returns a copy of the record in which each
  sensitive field (\<^verbatim>\<open>password\<close>, \<^verbatim>\<open>username\<close>, \<^verbatim>\<open>description\<close>, \<^verbatim>\<open>url\<close>, \<^verbatim>\<open>linkUrl\<close>) that
  holds a non-empty string holds instead the envelope of that string, which splits into exactly
  three colon-separated parts and decrypts to the string; a sensitive field holding the empty
  string keeps it, an absent one stays absent, and every other field, \<^verbatim>\<open>name\<close> and
  \<^verbatim>\<open>category\<close> among them, is stored as it was.
\<close>

theorem encryptVaultItem_envelopes:
  assumes "cryptojs_ok cj"
  shows "(\<forall>f v. get_field f item = Some v \<and> v \<noteq> [] \<longrightarrow>
            get_field f (encryptVaultItem cj rnd item pw) = Some (encrypt cj (rnd f) v pw) \<and>
            length (str_split CHR '':'' (encrypt cj (rnd f) v pw)) = 3 \<and>
            decrypt cj (encrypt cj (rnd f) v pw) pw = Inr v)
       \<and> (\<forall>f. get_field f item = Some [] \<longrightarrow>
            get_field f (encryptVaultItem cj rnd item pw) = Some [])
       \<and> (\<forall>f. get_field f item = None \<longrightarrow>
            get_field f (encryptVaultItem cj rnd item pw) = None)
       \<and> name (encryptVaultItem cj rnd item pw) = name item
       \<and> category (encryptVaultItem cj rnd item pw) = category item
       \<and> createdAt (encryptVaultItem cj rnd item pw) = createdAt item
       \<and> updatedAt (encryptVaultItem cj rnd item pw) = updatedAt item
       \<and> links (encryptVaultItem cj rnd item pw) = links item
       \<and> vault_item.more (encryptVaultItem cj rnd item pw) = vault_item.more item"
proof -
  have others: "name (encryptVaultItem cj rnd item pw) = name item
       \<and> category (encryptVaultItem cj rnd item pw) = category item
       \<and> createdAt (encryptVaultItem cj rnd item pw) = createdAt item
       \<and> updatedAt (encryptVaultItem cj rnd item pw) = updatedAt item
       \<and> links (encryptVaultItem cj rnd item pw) = links item
       \<and> vault_item.more (encryptVaultItem cj rnd item pw) = vault_item.more item"
    by (simp add: encryptVaultItem_as_step fold_field_step_others)
  have filled: "get_field f (encryptVaultItem cj rnd item pw) = Some (encrypt cj (rnd f) v pw) \<and>
            length (str_split CHR '':'' (encrypt cj (rnd f) v pw)) = 3 \<and>
            decrypt cj (encrypt cj (rnd f) v pw) pw = Inr v"
    if "get_field f item = Some v \<and> v \<noteq> []" for f v
    using that assms
    by (simp add: get_field_encryptVaultItem enc_value_def length_split_envelope
        decrypt_of_encrypt_same)
  have empty: "get_field f (encryptVaultItem cj rnd item pw) = Some []"
    if "get_field f item = Some []" for f
    using that by (simp add: get_field_encryptVaultItem enc_value_def)
  have absent: "get_field f (encryptVaultItem cj rnd item pw) = None"
    if "get_field f item = None" for f
    using that by (simp add: get_field_encryptVaultItem enc_value_def)
  from others filled empty absent show ?thesis by blast
qed

theorem encryptVaultItem_envelopes_witness:
  "cryptojs_ok toy_cryptojs \<and>
   get_field Username gmail = Some ''me@x.com'' \<and>
   get_field Username (encryptVaultItem toy_cryptojs (\<lambda>f. toy_entropy) gmail ''Tr0ub4dor&3'')
     = Some (encrypt toy_cryptojs toy_entropy ''me@x.com'' ''Tr0ub4dor&3'') \<and>
   length (str_split CHR '':'' (encrypt toy_cryptojs toy_entropy ''me@x.com'' ''Tr0ub4dor&3'')) = 3 \<and>
   get_field Password (encryptVaultItem toy_cryptojs (\<lambda>f. toy_entropy) gmail ''Tr0ub4dor&3'')
     = Some (encrypt toy_cryptojs toy_entropy ''p@ss'' ''Tr0ub4dor&3'') \<and>
   get_field Url (encryptVaultItem toy_cryptojs (\<lambda>f. toy_entropy) gmail ''Tr0ub4dor&3'') = None \<and>
   name (encryptVaultItem toy_cryptojs (\<lambda>f. toy_entropy) gmail ''Tr0ub4dor&3'') = ''Gmail'' \<and>
   category (encryptVaultItem toy_cryptojs (\<lambda>f. toy_entropy) gmail ''Tr0ub4dor&3'') = ''passwords''"
proof -
  note h = encryptVaultItem_envelopes [OF toy_cryptojs_ok, of gmail "\<lambda>f. toy_entropy" "''Tr0ub4dor&3''"]
  note filled = h [THEN conjunct1, rule_format]
  note absent = h [THEN conjunct2, THEN conjunct2, THEN conjunct1, rule_format]
  note nm = h [THEN conjunct2, THEN conjunct2, THEN conjunct2, THEN conjunct1]
  note ct = h [THEN conjunct2, THEN conjunct2, THEN conjunct2, THEN conjunct2, THEN conjunct1]
  have u: "get_field Username gmail = Some ''me@x.com'' \<and> ''me@x.com'' \<noteq> []"
    and p: "get_field Password gmail = Some ''p@ss'' \<and> ''p@ss'' \<noteq> []"
    and l: "get_field Url gmail = None"
    and n: "name gmail = ''Gmail''" "category gmail = ''passwords''"
    by (simp_all add: gmail_def)
  show ?thesis
    using toy_cryptojs_ok u filled [OF u] filled [OF p] absent [OF l] nm ct n
    by (simp only: simp_thms)
qed

text \<open>The claim as it reads fails on a present sensitive field that is the empty string, the
  value the entry forms give an untouched description.\<close>

theorem empty_field_not_enveloped_counterexample:
  "get_field Description gmail = Some [] \<and>
   get_field Description (encryptVaultItem toy_cryptojs (\<lambda>f. toy_entropy) gmail ''Tr0ub4dor&3'') = Some [] \<and>
   length (str_split CHR '':'' []) = 1"
  by (simp add: get_field_encryptVaultItem enc_value_def gmail_def)

lemma decrypt_needs_colon:
  assumes "decrypt cj c pw = Inr t"
  shows "c \<noteq> []" and "CHR '':'' \<in> set c"
proof -
  from assms have three: "length (str_split CHR '':'' c) = 3"
    by (auto simp: decrypt_def decrypt_try_def Let_def split: sum.splits if_splits)
  show colon: "CHR '':'' \<in> set c"
  proof (rule ccontr)
    assume "CHR '':'' \<notin> set c"
    then have "str_split CHR '':'' c = [c]" by (rule str_split_no_sep)
    with three show False by simp
  qed
  then show "c \<noteq> []" by auto
qed

lemma dec_value_decoded:
  assumes "decrypt cj c pw = Inr t"
  shows "dec_value cj pw f (Some c) = Some t"
  using assms decrypt_needs_colon [OF assms] by (simp add: dec_value_def)

text \<open>
  \<^bold>\<open>C4\<close> (as amended). \<^verbatim>\<open>decryptVaultItem\<close> tries to decrypt exactly the sensitive fields
  holding a non-empty string with a colon; where \<^verbatim>\<open>decrypt\<close> raises, the field keeps its stored
  value and the loop goes on; where \<^verbatim>\<open>decrypt\<close> returns a text, the field holds that text; no
  other field changes. So when a record was encrypted and one sensitive field \<open>g\<close> was then
  overwritten by a value \<open>c\<close>, the result is the original record with, in field \<open>g\<close>, the value
  \<open>c\<close> itself if \<^verbatim>\<open>decrypt\<close> refuses \<open>c\<close>, and the text \<open>t\<close> if \<open>c\<close> still decrypts to
  \<open>t\<close>. The function returns a record on every input: each error \<^verbatim>\<open>decrypt\<close> raises is caught
  inside the loop.
\<close>

theorem decryptVaultItem_partial_success:
  "(\<forall>f. get_field f (decryptVaultItem cj item pw) =
          (case get_field f item of
             None \<Rightarrow> None
           | Some v \<Rightarrow>
               if v \<noteq> [] \<and> CHR '':'' \<in> set v
               then (case decrypt cj v pw of Inr plain \<Rightarrow> Some plain | Inl e \<Rightarrow> Some v)
               else Some v))
   \<and> name (decryptVaultItem cj item pw) = name item
   \<and> category (decryptVaultItem cj item pw) = category item
   \<and> createdAt (decryptVaultItem cj item pw) = createdAt item
   \<and> updatedAt (decryptVaultItem cj item pw) = updatedAt item
   \<and> links (decryptVaultItem cj item pw) = links item
   \<and> vault_item.more (decryptVaultItem cj item pw) = vault_item.more item
   \<and> (cryptojs_ok cj \<and> isl (decrypt cj c pw) \<longrightarrow>
        decryptVaultItem cj (set_field g (Some c) (encryptVaultItem cj rnd original pw)) pw
          = set_field g (Some c) original)
   \<and> (cryptojs_ok cj \<and> decrypt cj c pw = Inr t \<longrightarrow>
        decryptVaultItem cj (set_field g (Some c) (encryptVaultItem cj rnd original pw)) pw
          = set_field g (Some t) original)"
proof (intro conjI allI impI)
  fix f
  show "get_field f (decryptVaultItem cj item pw) =
          (case get_field f item of
             None \<Rightarrow> None
           | Some v \<Rightarrow>
               if v \<noteq> [] \<and> CHR '':'' \<in> set v
               then (case decrypt cj v pw of Inr plain \<Rightarrow> Some plain | Inl e \<Rightarrow> Some v)
               else Some v)"
    by (simp add: get_field_decryptVaultItem dec_value_def split: sum.splits)
next
  assume a: "cryptojs_ok cj \<and> isl (decrypt cj c pw)"
  let ?stored = "set_field g (Some c) (encryptVaultItem cj rnd original pw)"
  show "decryptVaultItem cj ?stored pw = set_field g (Some c) original"
  proof (rule vault_item_eqI)
    fix f
    show "get_field f (decryptVaultItem cj ?stored pw) = get_field f (set_field g (Some c) original)"
      using a
      by (simp add: get_field_decryptVaultItem get_set_field get_field_encryptVaultItem
          dec_enc_value dec_value_failed)
  qed (simp_all add: decryptVaultItem_as_step encryptVaultItem_as_step fold_field_step_others
      set_field_others)
next
  assume a: "cryptojs_ok cj \<and> decrypt cj c pw = Inr t"
  let ?stored = "set_field g (Some c) (encryptVaultItem cj rnd original pw)"
  show "decryptVaultItem cj ?stored pw = set_field g (Some t) original"
  proof (rule vault_item_eqI)
    fix f
    show "get_field f (decryptVaultItem cj ?stored pw) = get_field f (set_field g (Some t) original)"
      using a
      by (simp add: get_field_decryptVaultItem get_set_field get_field_encryptVaultItem
          dec_enc_value dec_value_decoded)
  qed (simp_all add: decryptVaultItem_as_step encryptVaultItem_as_step fold_field_step_others
      set_field_others)
qed (simp_all add: decryptVaultItem_as_step fold_field_step_others)

lemma refused_value: "isl (decrypt toy_cryptojs ''53:49:zz:zz'' ''Tr0ub4dor&3'')"
  by code_simp

lemma decoded_value:
  "decrypt toy_cryptojs ''53:49:547230756234646f722633353370407374'' ''Tr0ub4dor&3'' = Inr ''p@st''"
  by code_simp

theorem decryptVaultItem_partial_success_witness:
  "cryptojs_ok toy_cryptojs \<and> isl (decrypt toy_cryptojs ''53:49:zz:zz'' ''Tr0ub4dor&3'') \<and>
   decryptVaultItem toy_cryptojs
      (set_field Password (Some ''53:49:zz:zz'')
         (encryptVaultItem toy_cryptojs (\<lambda>f. toy_entropy) gmail ''Tr0ub4dor&3'')) ''Tr0ub4dor&3''
     = gmail\<lparr>password := Some ''53:49:zz:zz''\<rparr> \<and>
   decrypt toy_cryptojs ''53:49:547230756234646f722633353370407374'' ''Tr0ub4dor&3'' = Inr ''p@st'' \<and>
   decryptVaultItem toy_cryptojs
      (set_field Password (Some ''53:49:547230756234646f722633353370407374'')
         (encryptVaultItem toy_cryptojs (\<lambda>f. toy_entropy) gmail ''Tr0ub4dor&3'')) ''Tr0ub4dor&3''
     = gmail\<lparr>password := Some ''p@st''\<rparr>"
proof -
  note h = decryptVaultItem_partial_success [where cj = toy_cryptojs and pw = "''Tr0ub4dor&3''"
      and g = Password and rnd = "\<lambda>f. toy_entropy" and original = gmail]
  note refused = h [where c = "''53:49:zz:zz''", THEN conjunct2, THEN conjunct2, THEN conjunct2,
      THEN conjunct2, THEN conjunct2, THEN conjunct2, THEN conjunct2, THEN conjunct1, THEN mp,
      OF conjI, OF toy_cryptojs_ok refused_value]
  note decoded = h [where c = "''53:49:547230756234646f722633353370407374''" and t = "''p@st''",
      THEN conjunct2, THEN conjunct2, THEN conjunct2,
      THEN conjunct2, THEN conjunct2, THEN conjunct2, THEN conjunct2, THEN conjunct2, THEN mp,
      OF conjI, OF toy_cryptojs_ok decoded_value]
  have "set_field Password (Some ''53:49:zz:zz'') gmail = gmail\<lparr>password := Some ''53:49:zz:zz''\<rparr>"
    and "set_field Password (Some ''p@st'') gmail = gmail\<lparr>password := Some ''p@st''\<rparr>"
    by (simp_all only: set_field.simps)
  with refused decoded toy_cryptojs_ok refused_value decoded_value show ?thesis
    by (simp only: simp_thms)
qed

text \<open>The claim as it reads fails for a corrupted field whose value still decrypts: the
  password's envelope with its last character changed decrypts to another text, and that text,
  not the stored value, is in the field afterwards.\<close>

theorem corrupted_field_overwritten_counterexample:
  "password (encryptVaultItem toy_cryptojs (\<lambda>f. toy_entropy) gmail ''Tr0ub4dor&3'')
     = Some ''53:49:547230756234646f722633353370407373'' \<and>
   password (decryptVaultItem toy_cryptojs
      (set_field Password (Some ''53:49:547230756234646f722633353370407374'')
         (encryptVaultItem toy_cryptojs (\<lambda>f. toy_entropy) gmail ''Tr0ub4dor&3'')) ''Tr0ub4dor&3'')
     = Some ''p@st'' \<and>
   password (decryptVaultItem toy_cryptojs
      (set_field Password (Some ''53:49:547230756234646f722633353370407374'')
         (encryptVaultItem toy_cryptojs (\<lambda>f. toy_entropy) gmail ''Tr0ub4dor&3'')) ''Tr0ub4dor&3'')
     \<noteq> Some ''53:49:547230756234646f722633353370407374''"
proof -
  let ?stored = "encryptVaultItem toy_cryptojs (\<lambda>f. toy_entropy) gmail ''Tr0ub4dor&3''"
  let ?c = "''53:49:547230756234646f722633353370407374''"
  have "encrypt toy_cryptojs toy_entropy ''p@ss'' ''Tr0ub4dor&3''
          = ''53:49:547230756234646f722633353370407373''"
    by code_simp
  then have e: "get_field Password ?stored = Some ''53:49:547230756234646f722633353370407373''"
    by (simp add: get_field_encryptVaultItem enc_value_def gmail_def)
  have "get_field Password (decryptVaultItem toy_cryptojs (set_field Password (Some ?c) ?stored)
          ''Tr0ub4dor&3'') = Some ''p@st''"
    by (simp add: get_field_decryptVaultItem get_set_field dec_value_decoded [OF decoded_value])
  with e show ?thesis by simp
qed

section \<open>vaultDB: duplicates\<close>

lemma note_duplicate_step:
  "note_duplicate row (seen, dups) =
     (if item_key (snd row) \<in> seen then (seen, dups @ [fst row])
      else (insert (item_key (snd row)) seen, dups))"
  by (simp add: note_duplicate_def Let_def)

lemma fold_note_duplicate:
  "fold note_duplicate rows (seen, dups) =
     (seen \<union> (item_key \<circ> snd) ` set rows, dups @ dropped_from seen rows)"
proof (induction rows arbitrary: seen dups)
  case Nil
  show ?case by simp
next
  case (Cons row rows)
  show ?case
    by (cases "item_key (snd row) \<in> seen") (auto simp: note_duplicate_step Cons.IH)
qed

lemma dropped_from_subset: "set (dropped_from seen rows) \<subseteq> fst ` set rows"
  by (induction rows arbitrary: seen) auto

lemma filter_dropped_from:
  "distinct (map fst rows) \<Longrightarrow>
   filter (\<lambda>row. fst row \<notin> set (dropped_from seen rows)) rows = kept_from seen rows"
proof (induction rows arbitrary: seen)
  case Nil
  show ?case by simp
next
  case (Cons row rows)
  from Cons.prems have fresh: "fst row \<notin> fst ` set rows" and d: "distinct (map fst rows)"
    by auto
  have out: "fst row \<notin> set (dropped_from s rows)" for s
    using fresh dropped_from_subset [of s rows] by blast
  show ?case
  proof (cases "item_key (snd row) \<in> seen")
    case True
    have "fst r \<noteq> fst row" if "r \<in> set rows" for r
      using fresh that by (metis imageI)
    then have "filter (\<lambda>r. fst r \<notin> set (fst row # dropped_from seen rows)) rows
          = filter (\<lambda>r. fst r \<notin> set (dropped_from seen rows)) rows"
      by (intro filter_cong) simp_all
    with True Cons.IH [OF d, of seen] show ?thesis by simp
  next
    case False
    with Cons.IH [OF d] out show ?thesis by simp
  qed
qed

lemma length_kept_dropped: "length (kept_from seen rows) + length (dropped_from seen rows) = length rows"
  by (induction rows arbitrary: seen) auto

lemma kept_from_keys:
  "(item_key \<circ> snd) ` set (kept_from seen rows) = (item_key \<circ> snd) ` set rows - seen"
  by (induction rows arbitrary: seen) auto

lemma kept_from_distinct: "distinct (map (item_key \<circ> snd) (kept_from seen rows))"
proof (induction rows arbitrary: seen)
  case Nil
  show ?case by simp
next
  case (Cons row rows)
  have "item_key (snd row) \<notin> (item_key \<circ> snd) ` set (kept_from (insert (item_key (snd row)) seen) rows)"
    by (simp only: kept_from_keys) simp
  with Cons.IH show ?case by auto
qed

lemma kept_from_subseq: "subseq (kept_from seen rows) rows"
  by (induction rows arbitrary: seen) auto

lemma kept_from_first:
  "r \<in> set (kept_from seen rows) \<Longrightarrow>
   \<exists>before after. rows = before @ r # after \<and>
      item_key (snd r) \<notin> seen \<union> (item_key \<circ> snd) ` set before"
proof (induction rows arbitrary: seen)
  case Nil
  then show ?case by simp
next
  case (Cons row rows)
  show ?case
  proof (cases "item_key (snd row) \<in> seen")
    case True
    with Cons.prems have "r \<in> set (kept_from seen rows)" by simp
    from Cons.IH [OF this] obtain before after where
      "rows = before @ r # after" "item_key (snd r) \<notin> seen \<union> (item_key \<circ> snd) ` set before"
      by blast
    with True have "row # rows = (row # before) @ r # after \<and>
        item_key (snd r) \<notin> seen \<union> (item_key \<circ> snd) ` set (row # before)"
      by auto
    then show ?thesis by blast
  next
    case False
    show ?thesis
    proof (cases "r = row")
      case True
      with False have "row # rows = [] @ r # rows \<and> item_key (snd r) \<notin> seen \<union> (item_key \<circ> snd) ` set []"
        by simp
      then show ?thesis by blast
    next
      case ne: False
      with False Cons.prems have "r \<in> set (kept_from (insert (item_key (snd row)) seen) rows)"
        by simp
      from Cons.IH [OF this] obtain before after where
        "rows = before @ r # after"
        "item_key (snd r) \<notin> insert (item_key (snd row)) seen \<union> (item_key \<circ> snd) ` set before"
        by blast
      then have "row # rows = (row # before) @ r # after \<and>
          item_key (snd r) \<notin> seen \<union> (item_key \<circ> snd) ` set (row # before)"
        by auto
      then show ?thesis by blast
    qed
  qed
qed

lemma dropped_from_distinct_keys:
  "distinct (map (item_key \<circ> snd) rows) \<Longrightarrow> (item_key \<circ> snd) ` set rows \<inter> seen = {} \<Longrightarrow>
   dropped_from seen rows = []"
  by (induction rows arbitrary: seen) auto

lemma removeDuplicateItems_rows:
  assumes "distinct (map fst (vaultItems db))"
  shows "vaultItems (snd (removeDuplicateItems db)) = kept_from {} (vaultItems db)"
proof -
  have f: "filter (\<lambda>row. fst row \<notin> set (dropped_from {} (vaultItems db))) (vaultItems db)
             = kept_from {} (vaultItems db)"
    using assms by (rule filter_dropped_from)
  show ?thesis
  proof (cases "dropped_from {} (vaultItems db) = []")
    case True
    with f show ?thesis
      by (simp add: removeDuplicateItems_def fold_note_duplicate Let_def)
  next
    case False
    with f show ?thesis
      by (simp add: removeDuplicateItems_def fold_note_duplicate Let_def table_bulkDelete_def)
  qed
qed

lemma removeDuplicateItems_result:
  "removed (fst (removeDuplicateItems db)) = length (dropped_from {} (vaultItems db))"
  "remaining (fst (removeDuplicateItems db)) = length (vaultItems (snd (removeDuplicateItems db)))"
  "nextId (snd (removeDuplicateItems db)) = nextId db"
  "session_masterPassword (snd (removeDuplicateItems db)) = session_masterPassword db"
  by (simp_all add: removeDuplicateItems_def fold_note_duplicate Let_def table_bulkDelete_def
      table_count_def)

lemma removeDuplicateItems_clean:
  assumes "distinct (map (item_key \<circ> snd) (vaultItems db))"
  shows "removeDuplicateItems db = (\<lparr>removed = 0, remaining = length (vaultItems db)\<rparr>, db)"
proof -
  have "dropped_from {} (vaultItems db) = []"
    using assms by (intro dropped_from_distinct_keys) simp_all
  then show ?thesis
    by (simp add: removeDuplicateItems_def fold_note_duplicate Let_def table_count_def)
qed

lemma key_gmail: "item_key gmail = ''Gmail-passwords-1700000000000''"
  by (simp add: item_key_def gmail_def String_int_def String_nat.simps)

lemma key_memo: "item_key memo = ''Memo-notes-1700000000500''"
  by (simp add: item_key_def memo_def String_int_def String_nat.simps)

lemma dedupe_cluttered:
  "removeDuplicateItems cluttered_db =
     (\<lparr>removed = 2, remaining = 2\<rparr>, cluttered_db\<lparr>vaultItems := [(1, gmail), (2, memo)]\<rparr>)"
  by (simp add: removeDuplicateItems_def cluttered_db_def note_duplicate_step key_gmail key_memo
      table_bulkDelete_def table_count_def Let_def)

lemma digit_cases:
  assumes "(k::nat) < 10"
  shows "k \<in> {0, 1, 2, 3, 4, 5, 6, 7, 8, 9}"
  using assms by simp arith

lemma digit_value_nth: "k < 10 \<Longrightarrow> digit_value (''0123456789'' ! k) = k"
  by (drule digit_cases) (elim insertE emptyE; simp add: digit_value_def)

lemma digit_not_dash: "k < 10 \<Longrightarrow> ''0123456789'' ! k \<noteq> CHR ''-''"
  by (drule digit_cases) (elim insertE emptyE; simp)

lemma String_nat_no_dash: "CHR ''-'' \<notin> set (String_nat n)"
proof (induction n rule: String_nat.induct)
  case (1 n)
  show ?case
  proof (cases "n < 10")
    case True
    with digit_not_dash [of n] show ?thesis
      by (subst String_nat.simps) auto
  next
    case False
    have "n mod 10 < 10" by simp
    from digit_not_dash [OF this] "1.IH" [OF False] False show ?thesis
      by (subst String_nat.simps) auto
  qed
qed

lemma digits_value_snoc: "digits_value (s @ [c]) = 10 * digits_value s + digit_value c"
  by (simp add: digits_value_def)

lemma digits_value_String_nat: "digits_value (String_nat n) = n"
proof (induction n rule: String_nat.induct)
  case (1 n)
  show ?case
  proof (cases "n < 10")
    case True
    then show ?thesis
      by (subst String_nat.simps) (simp add: digits_value_def digit_value_nth)
  next
    case False
    have "n mod 10 < 10" by simp
    from digit_value_nth [OF this] "1.IH" [OF False] False show ?thesis
      by (subst String_nat.simps) (simp add: digits_value_snoc)
  qed
qed

lemma String_nat_inject: "String_nat m = String_nat n \<Longrightarrow> m = n"
  by (metis digits_value_String_nat)

lemma last_split:
  "d \<notin> set b \<Longrightarrow> d \<notin> set b' \<Longrightarrow> a @ d # b = a' @ d # b' \<Longrightarrow> a = a' \<and> b = b'"
proof (induction a arbitrary: a')
  case Nil
  then show ?case by (cases a') auto
next
  case (Cons x xs)
  show ?case
  proof (cases a')
    case Nil
    with Cons.prems show ?thesis by auto
  next
    case (Cons y ys)
    with Cons.prems Cons.IH [of ys] show ?thesis by auto
  qed
qed

lemma item_key_inject:
  fixes a b :: "'a vault_item_scheme"
  assumes ca: "category a \<in> categories" and cb: "category b \<in> categories"
    and eq: "item_key a = item_key b"
  shows "name a = name b \<and> category a = category b \<and> createdAt a = createdAt b"
proof -
  have dash: "CHR ''-'' \<notin> set c \<and> c \<noteq> [] \<and> last c \<noteq> CHR ''-''" if "c \<in> categories" for c
    using that by (auto simp: categories_def)
  let ?X = "\<lambda>it::'a vault_item_scheme. name it @ CHR ''-'' # category it"
  let ?m = "\<lambda>it::'a vault_item_scheme. String_nat (nat \<bar>createdAt it\<bar>)"
  let ?Y = "\<lambda>it::'a vault_item_scheme. if createdAt it < 0 then ?X it @ ''-'' else ?X it"
  have key: "item_key it = ?Y it @ CHR ''-'' # ?m it" for it :: "'a vault_item_scheme"
    by (simp add: item_key_def String_int_def)
  from eq have "?Y a @ CHR ''-'' # ?m a = ?Y b @ CHR ''-'' # ?m b"
    by (simp only: key)
  from last_split [OF String_nat_no_dash String_nat_no_dash this]
  have Y: "?Y a = ?Y b" and m: "?m a = ?m b" by simp_all
  have lastX: "last (?X it) \<noteq> CHR ''-''" if "category it \<in> categories" for it :: "'a vault_item_scheme"
    using dash [OF that] by simp
  have sign: "(createdAt a < 0) = (createdAt b < 0)"
  proof (rule ccontr)
    assume "(createdAt a < 0) \<noteq> (createdAt b < 0)"
    then consider "createdAt a < 0" "\<not> createdAt b < 0" | "\<not> createdAt a < 0" "createdAt b < 0"
      by blast
    then show False
    proof cases
      case 1
      with Y have "?X a @ ''-'' = ?X b" by simp
      then have "last (?X b) = CHR ''-''" by (metis last_snoc)
      with lastX [OF cb] show False by simp
    next
      case 2
      with Y have "?X a = ?X b @ ''-''" by simp
      then have "last (?X a) = CHR ''-''" by (metis last_snoc)
      with lastX [OF ca] show False by simp
    qed
  qed
  with Y have "?X a = ?X b" by (simp split: if_splits)
  from last_split [OF _ _ this] dash [OF ca] dash [OF cb]
  have n: "name a = name b" and c: "category a = category b" by simp_all
  from m have "nat \<bar>createdAt a\<bar> = nat \<bar>createdAt b\<bar>" by (rule String_nat_inject)
  with sign have "createdAt a = createdAt b" by (auto split: if_splits)
  with n c show ?thesis by simp
qed

text \<open>
  \<^bold>\<open>C9\<close>. \<^verbatim>\<open>removeDuplicateItems\<close> is idempotent. On a table (its primary keys are distinct)
  one pass leaves the rows in their order, keeps of every duplicate key
  \<^verbatim>\<open>name-category-createdAt\<close> the first row that has it and removes all later ones, so that
  afterwards the keys are pairwise distinct and every key is still present; the numbers it
  reports are the rows removed and the rows left. A second pass on the result removes zero
  rows and leaves the table as it is. For items whose category is one of the four categories
  of the interface, two keys are equal exactly when name, category and creation time are.
\<close>

theorem removeDuplicateItems_idempotent:
  assumes "distinct (map fst (vaultItems db))"
  shows "removeDuplicateItems (snd (removeDuplicateItems db)) =
           (\<lparr>removed = 0, remaining = remaining (fst (removeDuplicateItems db))\<rparr>,
            snd (removeDuplicateItems db))
       \<and> distinct (map (item_key \<circ> snd) (vaultItems (snd (removeDuplicateItems db))))
       \<and> (item_key \<circ> snd) ` set (vaultItems (snd (removeDuplicateItems db)))
            = (item_key \<circ> snd) ` set (vaultItems db)
       \<and> subseq (vaultItems (snd (removeDuplicateItems db))) (vaultItems db)
       \<and> (\<forall>r \<in> set (vaultItems (snd (removeDuplicateItems db))).
             \<exists>before after. vaultItems db = before @ r # after \<and>
                item_key (snd r) \<notin> (item_key \<circ> snd) ` set before)
       \<and> removed (fst (removeDuplicateItems db)) + remaining (fst (removeDuplicateItems db))
            = length (vaultItems db)
       \<and> remaining (fst (removeDuplicateItems db))
            = length (vaultItems (snd (removeDuplicateItems db)))
       \<and> (\<forall>(a :: vault_item) (b :: vault_item). category a \<in> categories \<and> category b \<in> categories \<longrightarrow>
             (item_key a = item_key b) =
             (name a = name b \<and> category a = category b \<and> createdAt a = createdAt b))"
proof -
  let ?db1 = "snd (removeDuplicateItems db)"
  note rows = removeDuplicateItems_rows [OF assms]
  have d: "distinct (map (item_key \<circ> snd) (vaultItems ?db1))"
    by (simp only: rows kept_from_distinct)
  have again: "removeDuplicateItems ?db1 =
      (\<lparr>removed = 0, remaining = remaining (fst (removeDuplicateItems db))\<rparr>, ?db1)"
    using removeDuplicateItems_clean [OF d] by (simp add: removeDuplicateItems_result(2))
  have keys: "(item_key \<circ> snd) ` set (vaultItems ?db1) = (item_key \<circ> snd) ` set (vaultItems db)"
    by (simp only: rows kept_from_keys) simp
  have sub: "subseq (vaultItems ?db1) (vaultItems db)"
    by (simp only: rows kept_from_subseq)
  have first: "\<exists>before after. vaultItems db = before @ r # after \<and>
                item_key (snd r) \<notin> (item_key \<circ> snd) ` set before"
    if "r \<in> set (vaultItems ?db1)" for r
    using kept_from_first [of r "{}" "vaultItems db"] that by (simp add: rows)
  have counts: "removed (fst (removeDuplicateItems db)) + remaining (fst (removeDuplicateItems db))
            = length (vaultItems db)"
    using length_kept_dropped [of "{}" "vaultItems db"]
    by (simp add: removeDuplicateItems_result rows)
  have same: "(item_key a = item_key b) =
             (name a = name b \<and> category a = category b \<and> createdAt a = createdAt b)"
    if "category a \<in> categories \<and> category b \<in> categories" for a b :: vault_item
    using item_key_inject [of a b] that by (auto simp: item_key_def)
  then have inj: "\<forall>(a :: vault_item) (b :: vault_item). category a \<in> categories \<and> category b \<in> categories \<longrightarrow>
             (item_key a = item_key b) =
             (name a = name b \<and> category a = category b \<and> createdAt a = createdAt b)"
    by blast
  from again d keys sub first counts have "removeDuplicateItems (snd (removeDuplicateItems db)) =
           (\<lparr>removed = 0, remaining = remaining (fst (removeDuplicateItems db))\<rparr>,
            snd (removeDuplicateItems db))
       \<and> distinct (map (item_key \<circ> snd) (vaultItems (snd (removeDuplicateItems db))))
       \<and> (item_key \<circ> snd) ` set (vaultItems (snd (removeDuplicateItems db)))
            = (item_key \<circ> snd) ` set (vaultItems db)
       \<and> subseq (vaultItems (snd (removeDuplicateItems db))) (vaultItems db)
       \<and> (\<forall>r \<in> set (vaultItems (snd (removeDuplicateItems db))).
             \<exists>before after. vaultItems db = before @ r # after \<and>
                item_key (snd r) \<notin> (item_key \<circ> snd) ` set before)
       \<and> removed (fst (removeDuplicateItems db)) + remaining (fst (removeDuplicateItems db))
            = length (vaultItems db)
       \<and> remaining (fst (removeDuplicateItems db))
            = length (vaultItems (snd (removeDuplicateItems db)))"
    by (simp add: removeDuplicateItems_result(2))
  with inj show ?thesis by (elim conjE) (intro conjI; assumption)
qed

theorem removeDuplicateItems_idempotent_witness:
  "distinct (map fst (vaultItems cluttered_db)) \<and>
   removeDuplicateItems cluttered_db =
     (\<lparr>removed = 2, remaining = 2\<rparr>, cluttered_db\<lparr>vaultItems := [(1, gmail), (2, memo)]\<rparr>) \<and>
   removeDuplicateItems (cluttered_db\<lparr>vaultItems := [(1, gmail), (2, memo)]\<rparr>) =
     (\<lparr>removed = 0, remaining = 2\<rparr>, cluttered_db\<lparr>vaultItems := [(1, gmail), (2, memo)]\<rparr>)"
proof -
  have d: "distinct (map fst (vaultItems cluttered_db))"
    by (simp add: cluttered_db_def)
  from removeDuplicateItems_idempotent [OF d, THEN conjunct1] d dedupe_cluttered
  show ?thesis by simp
qed

section \<open>vaultDB: pulling the server snapshot\<close>

lemma fold_table_add:
  "fold (\<lambda>item d. snd (table_add (snd item) d)) items db =
     db\<lparr>vaultItems := vaultItems db @ zip [nextId db ..< nextId db + length items] (map snd items),
        nextId := nextId db + length items\<rparr>"
proof (induction items arbitrary: db)
  case Nil
  show ?case by simp
next
  case (Cons item items)
  let ?db1 = "snd (table_add (snd item) db)"
  have n1: "nextId ?db1 = Suc (nextId db)"
    and r1: "vaultItems ?db1 = vaultItems db @ [(nextId db, snd item)]"
    by (simp_all add: table_add_def)
  have "fold (\<lambda>item d. snd (table_add (snd item) d)) (item # items) db =
          fold (\<lambda>item d. snd (table_add (snd item) d)) items ?db1"
    by simp
  also have "\<dots> = ?db1\<lparr>vaultItems := vaultItems ?db1 @
                 zip [nextId ?db1 ..< nextId ?db1 + length items] (map snd items),
               nextId := nextId ?db1 + length items\<rparr>"
    by (rule Cons.IH)
  also have "\<dots> = db\<lparr>vaultItems := vaultItems db @
                 zip [nextId db ..< nextId db + length (item # items)] (map snd (item # items)),
               nextId := nextId db + length (item # items)\<rparr>"
  proof -
    have u: "[nextId db ..< Suc (nextId db + length items)] =
               nextId db # [Suc (nextId db) ..< Suc (nextId db + length items)]"
      by (simp add: upt_conv_Cons del: upt_Suc)
    show ?thesis
      unfolding n1 r1 by (simp add: u table_add_def del: upt_Suc)
  qed
  finally show ?case .
qed

lemma zip_upt_keys:
  "length ns = length its \<Longrightarrow> (item_key \<circ> snd) ` set (zip ns its) = item_key ` set its"
  by (auto simp: set_zip in_set_conv_nth image_iff) (metis nth_mem, metis)

lemma length_kept_from: "length (kept_from seen rows) = card ((item_key \<circ> snd) ` set rows - seen)"
proof -
  have "length (kept_from seen rows) = length (map (item_key \<circ> snd) (kept_from seen rows))"
    by simp
  also have "\<dots> = card (set (map (item_key \<circ> snd) (kept_from seen rows)))"
    using kept_from_distinct [of seen rows] by (simp only: distinct_card)
  also have "\<dots> = card ((item_key \<circ> snd) ` set rows - seen)"
    by (simp only: set_map kept_from_keys)
  finally show ?thesis .
qed

lemma kept_from_distinct_keys:
  "distinct (map (item_key \<circ> snd) rows) \<Longrightarrow> (item_key \<circ> snd) ` set rows \<inter> seen = {} \<Longrightarrow>
   kept_from seen rows = rows"
  by (induction rows arbitrary: seen) auto

lemma length_getAllItems:
  "length (fst (getAllItems cj db)) = length (vaultItems (snd (removeDuplicateItems db)))"
  by (simp add: getAllItems_def Let_def table_newest_first_def)

lemma snd_getAllItems: "snd (getAllItems cj db) = snd (removeDuplicateItems db)"
  by (simp add: getAllItems_def Let_def)

lemma sync_rows:
  assumes "session_masterPassword db \<noteq> []" "available_again srv" "fetched srv = Inr items"
  shows "syncVaultItemsFromServer srv db =
     (\<lparr>sync_success = True, synced = length items, sync_error = None\<rparr>,
      db\<lparr>vaultItems := kept_from {} (zip [nextId db ..< nextId db + length items] (map snd items)),
         nextId := nextId db + length items\<rparr>)"
proof -
  let ?rows = "zip [nextId db ..< nextId db + length items] (map snd items)"
  let ?db2 = "db\<lparr>vaultItems := ?rows, nextId := nextId db + length items\<rparr>"
  have db2: "fold (\<lambda>item d. snd (table_add (snd item) d)) items (table_clear db) = ?db2"
    by (simp add: fold_table_add table_clear_def)
  have "distinct (map fst (vaultItems ?db2))" by simp
  from removeDuplicateItems_rows [OF this]
  have rows: "vaultItems (snd (removeDuplicateItems ?db2)) = kept_from {} ?rows" by simp
  have "snd (removeDuplicateItems ?db2) = ?db2\<lparr>vaultItems := kept_from {} ?rows\<rparr>"
    using rows removeDuplicateItems_result(3,4) [of ?db2]
    by (intro vault_db.equality) simp_all
  then show ?thesis
    using assms by (simp add: syncVaultItemsFromServer_def loadVaultItemsFromServer_def Let_def db2)
qed

lemma sync_failed:
  assumes "sync_success (fst (syncVaultItemsFromServer srv db))"
  shows "session_masterPassword db \<noteq> [] \<and> available_again srv \<and> (\<exists>items. fetched srv = Inr items)"
  using assms
  by (auto simp: syncVaultItemsFromServer_def loadVaultItemsFromServer_def Let_def
      split: if_splits sum.splits option.splits)

lemma sync_healthy:
  "autoSyncVaultItems healthy_server cluttered_db =
     (\<lparr>success = True, action = ''loaded'', count = Some 2, error = None\<rparr>,
      cluttered_db\<lparr>vaultItems := [(5, gmail), (6, memo)], nextId := 7\<rparr>)"
proof -
  have u: "[5..<7] = [5, 6::nat]" by (simp add: upt_rec_numeral)
  have "syncVaultItemsFromServer healthy_server cluttered_db =
     (\<lparr>sync_success = True, synced = 2, sync_error = None\<rparr>,
      cluttered_db\<lparr>vaultItems := [(5, gmail), (6, memo)], nextId := 7\<rparr>)"
    using sync_rows [of cluttered_db healthy_server "[(''7'', gmail), (''8'', memo)]"]
    by (simp add: healthy_server_def cluttered_db_def u key_gmail key_memo)
  then show ?thesis
    by (simp add: autoSyncVaultItems_def Let_def healthy_server_def cluttered_db_def)
qed

lemma sync_twin:
  "autoSyncVaultItems twin_server cluttered_db =
     (\<lparr>success = True, action = ''loaded'', count = Some 2, error = None\<rparr>,
      cluttered_db\<lparr>vaultItems := [(5, gmail)], nextId := 7\<rparr>)"
proof -
  have u: "[5..<7] = [5, 6::nat]" by (simp add: upt_rec_numeral)
  have "syncVaultItemsFromServer twin_server cluttered_db =
     (\<lparr>sync_success = True, synced = 2, sync_error = None\<rparr>,
      cluttered_db\<lparr>vaultItems := [(5, gmail)], nextId := 7\<rparr>)"
    using sync_rows [of cluttered_db twin_server "[(''1'', gmail), (''2'', gmail)]"]
    by (simp add: twin_server_def cluttered_db_def u key_gmail)
  then show ?thesis
    by (simp add: autoSyncVaultItems_def Let_def twin_server_def cluttered_db_def)
qed

text \<open>
  \<^bold>\<open>C2\<close> (as amended). Whatever the table held before: if \<^verbatim>\<open>autoSyncVaultItems\<close> succeeds
  with action \<^verbatim>\<open>loaded\<close>, the server answered with a snapshot, the reported count is the
  snapshot's size \<open>N\<close>, and \<^verbatim>\<open>getAllItems\<close> afterwards returns as many items as the snapshot has
  different duplicate keys: exactly \<open>N\<close> when no two items of the snapshot agree in name,
  category and creation time, fewer otherwise, because the pass that removes duplicates runs on
  the imported rows. That \<^verbatim>\<open>getAllItems\<close> removes nothing more.
\<close>

theorem autoSync_loaded_count:
  assumes "autoSyncVaultItems srv db = (res, db')" and "success res" and "action res = ''loaded''"
  shows "\<exists>items. fetched srv = Inr items \<and> count res = Some (length items) \<and>
           length (fst (getAllItems cj db')) = card (item_key ` snd ` set items) \<and>
           (distinct (map (item_key \<circ> snd) items) \<longrightarrow>
              length (fst (getAllItems cj db')) = length items) \<and>
           vaultItems (snd (getAllItems cj db')) = vaultItems db'"
proof -
  from assms have pw: "session_masterPassword db \<noteq> []" and av: "available srv"
    by (auto simp: autoSyncVaultItems_def split: if_splits)
  with assms(1) have res: "res = \<lparr>success = sync_success (fst (syncVaultItemsFromServer srv db)),
        action = ''loaded'', count = Some (synced (fst (syncVaultItemsFromServer srv db))),
        error = sync_error (fst (syncVaultItemsFromServer srv db))\<rparr>"
    and db': "db' = snd (syncVaultItemsFromServer srv db)"
    by (auto simp: autoSyncVaultItems_def Let_def)
  from res assms(2) have "sync_success (fst (syncVaultItemsFromServer srv db))" by simp
  from sync_failed [OF this] obtain items where av2: "available_again srv" and f: "fetched srv = Inr items"
    by blast
  let ?rows = "zip [nextId db ..< nextId db + length items] (map snd items)"
  note s = sync_rows [OF pw av2 f]
  from s db' have rows': "vaultItems db' = kept_from {} ?rows" by simp
  have keys: "(item_key \<circ> snd) ` set ?rows = item_key ` snd ` set items"
    using zip_upt_keys [of "[nextId db ..< nextId db + length items]" "map snd items"]
    by (simp add: image_image)
  have clean: "removeDuplicateItems db' = (\<lparr>removed = 0, remaining = length (vaultItems db')\<rparr>, db')"
    by (rule removeDuplicateItems_clean) (simp add: rows' kept_from_distinct)
  have len: "length (fst (getAllItems cj db')) = card (item_key ` snd ` set items)"
    using keys by (simp add: length_getAllItems clean rows' length_kept_from)
  have "length (fst (getAllItems cj db')) = length items"
    if d: "distinct (map (item_key \<circ> snd) items)"
  proof -
    have "card (item_key ` snd ` set items) = length items"
      using distinct_card [OF d] by (simp add: image_image comp_def)
    with len show ?thesis by simp
  qed
  moreover have "count res = Some (length items)"
    using res s by simp
  moreover have "vaultItems (snd (getAllItems cj db')) = vaultItems db'"
    by (simp add: snd_getAllItems clean)
  ultimately show ?thesis using f len by blast
qed

theorem autoSync_loaded_count_witness:
  "success (fst (autoSyncVaultItems healthy_server cluttered_db)) \<and>
   action (fst (autoSyncVaultItems healthy_server cluttered_db)) = ''loaded'' \<and>
   fetched healthy_server = Inr [(''7'', gmail), (''8'', memo)] \<and>
   distinct (map (item_key \<circ> snd) [(''7'', gmail), (''8'', memo)]) \<and>
   length (fst (getAllItems toy_cryptojs (snd (autoSyncVaultItems healthy_server cluttered_db)))) = 2"
proof -
  let ?r = "autoSyncVaultItems healthy_server cluttered_db"
  have s: "success (fst ?r)" and a: "action (fst ?r) = ''loaded''"
    by (simp_all add: sync_healthy)
  have f: "fetched healthy_server = Inr [(''7'', gmail), (''8'', memo)]"
    by (simp add: healthy_server_def)
  have d: "distinct (map (item_key \<circ> snd) [(''7'', gmail), (''8'', memo)])"
    by (simp add: key_gmail key_memo)
  from autoSync_loaded_count [of healthy_server cluttered_db "fst ?r" "snd ?r" toy_cryptojs, OF _ s a]
  obtain items where "fetched healthy_server = Inr items"
    and "distinct (map (item_key \<circ> snd) items) \<longrightarrow>
           length (fst (getAllItems toy_cryptojs (snd ?r))) = length items"
    by auto
  with f d have "length (fst (getAllItems toy_cryptojs (snd ?r))) = 2" by simp
  with s a f d show ?thesis by (simp only: simp_thms)
qed

text \<open>The claim as it reads fails for a snapshot in which two items agree in name, category
  and creation time: two items are loaded and counted, one is left.\<close>

theorem duplicate_snapshot_counterexample:
  "success (fst (autoSyncVaultItems twin_server cluttered_db)) \<and>
   action (fst (autoSyncVaultItems twin_server cluttered_db)) = ''loaded'' \<and>
   fetched twin_server = Inr [(''1'', gmail), (''2'', gmail)] \<and>
   count (fst (autoSyncVaultItems twin_server cluttered_db)) = Some 2 \<and>
   length (fst (getAllItems toy_cryptojs (snd (autoSyncVaultItems twin_server cluttered_db)))) = 1"
proof -
  have "fetched twin_server = Inr [(''1'', gmail), (''2'', gmail)]"
    by (simp add: twin_server_def)
  then show ?thesis
    by (simp add: sync_twin length_getAllItems removeDuplicateItems_def note_duplicate_step Let_def)
qed

section \<open>The file server: the vault-item snapshot\<close>

lemma retryOperation_same: "retryOperation operation = operation ()"
  by (cases "operation ()") (simp_all add: retryOperation_def)

lemma FileEncryption_roundtrip:
  assumes "node_lib_ok lib"
  shows "FileEncryption_decrypt lib (FileEncryption_encrypt lib rnd d pw) pw = Inr d"
proof -
  have "AES_decrypt_wa lib (AES_encrypt_wa lib d k v) k v = Inr d" for k v
    using assms by (simp add: node_lib_ok_def)
  then show ?thesis
    by (simp add: FileEncryption_decrypt_def FileEncryption_encrypt_def Let_def Hex_parse_stringify)
qed

lemma read_snapshot_written:
  assumes "node_lib_ok lib"
  shows "read_snapshot lib pw (Json (FileEncryption_encrypt lib rnd (items_to_JSON lib xs) pw)) = Inr (Array xs)"
proof -
  have "items_of_JSON lib (items_to_JSON lib xs) = Inr (Array xs)"
    using assms by (simp add: node_lib_ok_def)
  then show ?thesis
    by (simp add: read_snapshot_def readJson_def FileEncryption_roundtrip [OF assms])
qed

lemma toy_node_ok: "node_lib_ok toy_node"
  by (simp add: node_lib_ok_def toy_node_def split: toy_text.splits)

lemma invalid_item_Null: "invalid_item Null = Inl TypeError"
  by (simp add: invalid_item_def item_id_def)

lemma invalid_item_Obj:
  "invalid_item (Obj properties) = Inr (case properties ''id'' of Some (JStr s) \<Rightarrow> s = [] | _ \<Rightarrow> True)"
  by (simp add: invalid_item_def item_id_def)

lemma validation_raises:
  "Null \<in> set items \<Longrightarrow> array_filter invalid_item items = Inl TypeError"
proof (induction items)
  case Nil
  then show ?case by simp
next
  case (Cons x xs)
  show ?case
  proof (cases x)
    case Null
    then show ?thesis by (simp add: invalid_item_Null)
  next
    case (Obj properties)
    with Cons.prems have "Null \<in> set xs" by simp
    from Cons.IH [OF this] Obj show ?thesis by (simp add: invalid_item_Obj)
  qed
qed

lemma validation_returns:
  "Null \<notin> set items \<Longrightarrow>
     array_filter invalid_item items = Inr (filter (\<lambda>x. invalid_item x = Inr True) items)"
proof (induction items)
  case Nil
  then show ?case by simp
next
  case (Cons x xs)
  then obtain properties where x: "x = Obj properties"
    by (cases x) simp_all
  from Cons have "array_filter invalid_item xs = Inr (filter (\<lambda>x. invalid_item x = Inr True) xs)"
    by simp
  with x show ?case by (simp add: invalid_item_Obj)
qed

lemma valid_has_string_id:
  "invalid_item item \<noteq> Inr True \<Longrightarrow> item \<noteq> Null \<Longrightarrow> has_string_id item"
  by (cases item) (auto simp: invalid_item_Obj has_string_id_def split: option.splits jv.splits)

lemma without_id_invalid:
  "\<not> has_string_id item \<Longrightarrow> item \<noteq> Null \<Longrightarrow> invalid_item item = Inr True"
  by (cases item) (auto simp: invalid_item_Obj has_string_id_def split: option.splits jv.splits)

lemma no_invalid_items:
  assumes "array_filter invalid_item items = Inr []"
  shows "Null \<notin> set items" and "list_all has_string_id items"
proof -
  show n: "Null \<notin> set items"
  proof
    assume "Null \<in> set items"
    from validation_raises [OF this] assms show False by simp
  qed
  from validation_returns [OF n] assms
  have "filter (\<lambda>x. invalid_item x = Inr True) items = []" by simp
  then have "\<forall>x \<in> set items. invalid_item x \<noteq> Inr True"
    by (simp add: filter_empty_conv)
  with n have "\<forall>x \<in> set items. has_string_id x"
    by (metis valid_has_string_id)
  then show "list_all has_string_id items" by (simp add: list_all_iff)
qed

lemma some_invalid_item:
  assumes "Null \<notin> set items" and "\<not> list_all has_string_id items"
  shows "\<exists>ys. array_filter invalid_item items = Inr ys \<and> ys \<noteq> []"
proof -
  from assms(2) obtain x where x: "x \<in> set items" "\<not> has_string_id x"
    by (auto simp: list_all_iff)
  with assms(1) have "x \<noteq> Null" by blast
  from without_id_invalid [OF x(2) this] x(1)
  have "filter (\<lambda>x. invalid_item x = Inr True) items \<noteq> []"
    by (auto simp: filter_empty_conv)
  with validation_returns [OF assms(1)] show ?thesis by simp
qed

lemma stored_items_written:
  assumes "node_lib_ok lib"
  shows "stored_items lib pw (st\<lparr>vault_items := Some (Json (FileEncryption_encrypt lib rnd (items_to_JSON lib xs) pw))\<rparr>)
           = Inr (Array xs)"
  by (simp add: stored_items_def read_snapshot_written [OF assms])

lemma write_and_verify_read:
  "write_and_verify lib pw items rnd disk st =
     (let found = (case disk of
                     None \<Rightarrow> Json (FileEncryption_encrypt lib rnd (items_to_JSON lib items) pw)
                   | Some f \<Rightarrow> f);
          st' = st\<lparr>vault_items := Some found\<rparr>
      in case read_snapshot lib pw found of
           Inl e \<Rightarrow> (Inl e, st')
         | Inr verifiedItems \<Rightarrow>
             (case value_length verifiedItems of
                Inl e \<Rightarrow> (Inl e, st')
              | Inr verifiedLength \<Rightarrow>
                  if verifiedLength \<noteq> Some (length items)
                  then (Inl ''Verification failed: item count mismatch'', st')
                  else (Inr (), st')))"
  by (simp add: write_and_verify_def read_snapshot_def retryOperation_same Let_def split: sum.splits)

lemma write_and_verify_passes:
  assumes "verified_length lib pw (case disk of
                     None \<Rightarrow> Json (FileEncryption_encrypt lib rnd (items_to_JSON lib items) pw)
                   | Some f \<Rightarrow> f) = Some (length items)"
  shows "write_and_verify lib pw items rnd disk st =
     (Inr (), st\<lparr>vault_items := Some (case disk of
                     None \<Rightarrow> Json (FileEncryption_encrypt lib rnd (items_to_JSON lib items) pw)
                   | Some f \<Rightarrow> f)\<rparr>)"
  using assms
  by (auto simp: write_and_verify_read verified_length_def Let_def split: sum.splits)


lemma verified_length_written:
  assumes "node_lib_ok lib"
  shows "verified_length lib pw (Json (FileEncryption_encrypt lib rnd (items_to_JSON lib xs) pw))
           = Some (length xs)"
  by (simp add: verified_length_def read_snapshot_written [OF assms] value_length_def)

lemma write_and_verify_faithful:
  assumes "node_lib_ok lib"
  shows "write_and_verify lib pw items rnd None st =
           (Inr (), st\<lparr>vault_items := Some (Json (FileEncryption_encrypt lib rnd (items_to_JSON lib items) pw))\<rparr>)"
  using write_and_verify_passes [where lib = lib and pw = pw and disk = None and rnd = rnd
      and items = items and st = st]
  by (simp add: verified_length_written [OF assms])

lemma post_rejects:
  assumes "Null \<notin> set items" and "\<not> list_all has_string_id items"
  shows "post_vault_items lib pw (Some items) now rnd disk st = (Inl (400, ''INVALID_ITEM_STRUCTURE''), st)"
proof -
  from some_invalid_item [OF assms] obtain ys where
    "array_filter invalid_item items = Inr ys" "ys \<noteq> []" by blast
  then show ?thesis by (simp add: post_vault_items_def)
qed

lemma post_raises:
  assumes "Null \<in> set items"
  shows "post_vault_items lib pw (Some items) now rnd disk st = (Inl (500, ''SAVE_ERROR''), st)"
  by (simp add: post_vault_items_def validation_raises [OF assms])

lemma string_ids_backups [simp]: "string_ids lib pw (st\<lparr>backups := bs\<rparr>) = string_ids lib pw st"
  by (simp add: string_ids_def stored_items_def)

lemma string_ids_written:
  assumes "node_lib_ok lib" "list_all has_string_id xs"
  shows "string_ids lib pw (st\<lparr>vault_items := Some (Json (FileEncryption_encrypt lib rnd (items_to_JSON lib xs) pw))\<rparr>)"
  using assms(2) by (simp add: string_ids_def stored_items_written [OF assms(1)])

lemma post_keeps_string_ids:
  assumes "node_lib_ok lib" "string_ids lib pw st"
  shows "string_ids lib pw (snd (post_vault_items lib pw body now rnd None st))"
proof (cases body)
  case None
  with assms(2) show ?thesis by (simp add: post_vault_items_def)
next
  case (Some items)
  show ?thesis
  proof (cases "array_filter invalid_item items")
    case (Inl e)
    with Some assms(2) show ?thesis by (simp add: post_vault_items_def)
  next
    case (Inr ys)
    show ?thesis
    proof (cases "ys = []")
      case False
      with Some Inr assms(2) show ?thesis by (simp add: post_vault_items_def)
    next
      case True
      with Inr have "array_filter invalid_item items = Inr []" by simp
      from no_invalid_items(2) [OF this] have ok: "list_all has_string_id items" .
      show ?thesis
        using Some Inr True string_ids_written [OF assms(1) ok]
        by (simp add: post_vault_items_def Let_def write_and_verify_faithful [OF assms(1)]
            split: option.splits)
    qed
  qed
qed

lemma findIndex_Some:
  "findIndex p xs = Inr (Some k) \<Longrightarrow> k < length xs \<and> p (xs ! k) = Inr True"
proof (induction xs arbitrary: k)
  case Nil
  then show ?case by simp
next
  case (Cons x xs)
  show ?case
  proof (cases "p x")
    case (Inl e)
    with Cons.prems show ?thesis by simp
  next
    case (Inr found)
    show ?thesis
    proof (cases found)
      case True
      with Inr Cons.prems show ?thesis by simp
    next
      case False
      with Inr Cons.prems obtain j where j: "findIndex p xs = Inr (Some j)" "k = Suc j"
        by (auto split: sum.splits)
      from Cons.IH [OF j(1)] j(2) show ?thesis by simp
    qed
  qed
qed

lemma array_filter_subset:
  "array_filter p xs = Inr ys \<Longrightarrow> set ys \<subseteq> set xs"
proof (induction xs arbitrary: ys)
  case Nil
  then show ?case by simp
next
  case (Cons x xs)
  from Cons.prems obtain keep zs where
    zs: "array_filter p xs = Inr zs" and ys: "ys = (if keep then x # zs else zs)"
    by (auto split: sum.splits)
  from Cons.IH [OF zs] ys show ?case by auto
qed

lemma has_string_id_upd: "has_string_id (Obj (i(''id'' \<mapsto> JStr s)))"
  by (simp add: has_string_id_def)

lemma put_items_cases:
  assumes "put_items itemId item v = Inr ys"
  obtains items where "v = Array items" "findIndex (id_is itemId) items = Inr None"
      "ys = items @ [Obj (item(''id'' \<mapsto> JStr itemId))]"
  | items k where "v = Array items" "findIndex (id_is itemId) items = Inr (Some k)"
      "ys = items[k := Obj ((spread (items ! k) ++ item)(''id'' \<mapsto> JStr itemId))]"
  using assms
  by (auto simp: put_items_def split: parsed.splits sum.splits option.splits)

lemma put_items_string_ids:
  assumes "list_all has_string_id items" and "put_items itemId item (Array items) = Inr ys"
  shows "list_all has_string_id ys"
  using assms(2)
proof (cases rule: put_items_cases)
  case (1 items')
  with assms(1) show ?thesis by (simp add: has_string_id_upd)
next
  case (2 items' k)
  let ?m = "Obj ((spread (items ! k) ++ item)(''id'' \<mapsto> JStr itemId))"
  have "set (items[k := ?m]) \<subseteq> insert ?m (set items)"
    by (rule set_update_subset_insert)
  moreover have "has_string_id ?m" by (rule has_string_id_upd)
  moreover from assms(1) have "\<forall>x \<in> set items. has_string_id x" by (simp add: list_all_iff)
  ultimately have "\<forall>x \<in> set (items[k := ?m]). has_string_id x" by blast
  with 2 show ?thesis by (simp add: list_all_iff)
qed

lemma put_items_forced:
  assumes "put_items itemId item v = Inr ys"
  shows "\<exists>properties. Obj properties \<in> set ys \<and> properties ''id'' = Some (JStr itemId) \<and>
           (\<forall>k w. k \<noteq> ''id'' \<and> item k = Some w \<longrightarrow> properties k = Some w)"
  using assms
proof (cases rule: put_items_cases)
  case (1 items)
  let ?m = "item(''id'' \<mapsto> JStr itemId)"
  from 1 have mem: "Obj ?m \<in> set ys" by simp
  have forced: "?m ''id'' = Some (JStr itemId) \<and> (\<forall>j w. j \<noteq> ''id'' \<and> item j = Some w \<longrightarrow> ?m j = Some w)"
    by (simp only: fun_upd_apply) simp
  show ?thesis by (rule exI [of _ ?m], rule conjI, rule mem, rule forced)
next
  case (2 items k)
  from findIndex_Some [OF 2(2)] have k: "k < length items" by simp
  let ?m = "(spread (items ! k) ++ item)(''id'' \<mapsto> JStr itemId)"
  from 2 k have mem: "Obj ?m \<in> set ys" by (simp add: set_update_memI)
  have forced: "?m ''id'' = Some (JStr itemId) \<and> (\<forall>j w. j \<noteq> ''id'' \<and> item j = Some w \<longrightarrow> ?m j = Some w)"
    by (simp only: fun_upd_apply map_add_Some_iff) simp
  show ?thesis by (rule exI [of _ ?m], rule conjI, rule mem, rule forced)
qed

lemma put_vault_item_result:
  "put_vault_item lib pw itemId (Some item) rnd st =
     (case stored_items lib pw st of
        Inl e \<Rightarrow> (Inl (500, ''Failed to update vault item''), st)
      | Inr v \<Rightarrow>
          (case put_items itemId item v of
             Inl e \<Rightarrow> (Inl (500, ''Failed to update vault item''), st)
           | Inr items' \<Rightarrow>
               (Inr itemId,
                st\<lparr>vault_items := Some (Json (FileEncryption_encrypt lib rnd
                      (items_to_JSON lib items') pw))\<rparr>)))"
  by (simp add: put_vault_item_def stored_items_def Let_def split: sum.splits option.splits)

lemma put_keeps_string_ids:
  assumes "node_lib_ok lib" "string_ids lib pw st"
  shows "string_ids lib pw (snd (put_vault_item lib pw itemId body rnd st))"
proof (cases body)
  case None
  with assms(2) show ?thesis by (simp add: put_vault_item_def)
next
  case (Some item)
  show ?thesis
  proof (cases "stored_items lib pw st")
    case (Inl e)
    with Some assms(2) show ?thesis by (simp add: put_vault_item_result)
  next
    case v: (Inr v)
    show ?thesis
    proof (cases "put_items itemId item v")
      case (Inl e)
      with Some v assms(2) show ?thesis by (simp add: put_vault_item_result)
    next
      case (Inr ys)
      then obtain items where items: "v = Array items"
        by (cases rule: put_items_cases) simp_all
      with v assms(2) have "list_all has_string_id items" by (simp add: string_ids_def)
      from put_items_string_ids [OF this] Inr items have "list_all has_string_id ys" by simp
      from string_ids_written [OF assms(1) this] Some v Inr
      show ?thesis by (simp add: put_vault_item_result)
    qed
  qed
qed

lemma put_forces_id:
  assumes "node_lib_ok lib" "fst (put_vault_item lib pw itemId (Some item) rnd st) = Inr reply"
  shows "\<exists>stored properties.
           stored_items lib pw (snd (put_vault_item lib pw itemId (Some item) rnd st)) = Inr (Array stored) \<and>
           Obj properties \<in> set stored \<and> properties ''id'' = Some (JStr itemId) \<and>
           (\<forall>k w. k \<noteq> ''id'' \<and> item k = Some w \<longrightarrow> properties k = Some w)"
proof (cases "stored_items lib pw st")
  case (Inl e)
  with assms(2) show ?thesis by (simp add: put_vault_item_result)
next
  case v: (Inr v)
  show ?thesis
  proof (cases "put_items itemId item v")
    case (Inl e)
    with v assms(2) show ?thesis by (simp add: put_vault_item_result)
  next
    case (Inr ys)
    with v have "stored_items lib pw (snd (put_vault_item lib pw itemId (Some item) rnd st))
        = Inr (Array ys)"
      by (simp add: put_vault_item_result stored_items_written [OF assms(1)])
    with put_items_forced [OF Inr] show ?thesis by blast
  qed
qed

lemma delete_keeps_string_ids:
  assumes "node_lib_ok lib" "string_ids lib pw st"
  shows "string_ids lib pw (snd (delete_vault_item lib pw itemId rnd st))"
proof (cases "vault_items st")
  case None
  with assms(2) show ?thesis by (simp add: delete_vault_item_def)
next
  case (Some f)
  show ?thesis
  proof (cases "read_snapshot lib pw f")
    case (Inl e)
    with Some assms(2) show ?thesis by (simp add: delete_vault_item_def)
  next
    case v: (Inr v)
    show ?thesis
    proof (cases v)
      case (NoArray l)
      with Some v assms(2) show ?thesis by (simp add: delete_vault_item_def)
    next
      case NullValue
      with Some v assms(2) show ?thesis by (simp add: delete_vault_item_def)
    next
      case (Array items)
      with Some v assms(2) have ok: "\<forall>x \<in> set items. has_string_id x"
        by (simp add: string_ids_def stored_items_def list_all_iff)
      show ?thesis
      proof (cases "array_filter (id_is_not itemId) items")
        case (Inl e)
        with Some v Array assms(2) show ?thesis by (simp add: delete_vault_item_def)
      next
        case (Inr ys)
        from array_filter_subset [OF Inr] ok have "list_all has_string_id ys"
          by (auto simp: list_all_iff)
        from string_ids_written [OF assms(1) this] Some v Array Inr assms(2)
        show ?thesis by (simp add: delete_vault_item_def Let_def)
      qed
    qed
  qed
qed

lemma String_nat_nonempty: "String_nat n \<noteq> []"
  by (subst String_nat.simps) simp

lemma pushed_items:
  assumes "syncVaultItemsToServer cj srv db = (r, Some sent, db')"
  shows "sent = map (\<lambda>item. (String_nat (fst item), snd item)) (fst (getAllItems cj db))"
  using assms
  by (auto simp: syncVaultItemsToServer_def Let_def split: if_splits sum.splits)

lemma request_items_valid:
  "array_filter invalid_item
     (request_items props (map (\<lambda>item. (String_nat (fst item), snd item)) items)) = Inr []"
proof -
  let ?sent = "request_items props (map (\<lambda>item. (String_nat (fst item), snd item)) items)"
  have n: "Null \<notin> set ?sent" by (auto simp: request_items_def)
  have "filter (\<lambda>x. invalid_item x = Inr True) ?sent = []"
    by (auto simp: filter_empty_conv request_items_def invalid_item_Obj String_nat_nonempty)
  with validation_returns [OF n] show ?thesis by simp
qed

text \<open>
  The snapshot operations keep every \<^verbatim>\<open>id\<close> of the stored snapshot a string. The save handler
  leaves the store as it was when an element of the array is not an item with a string \<^verbatim>\<open>id\<close>:
  when no element is \<^verbatim>\<open>null\<close> it answers status 400 with code \<^verbatim>\<open>INVALID_ITEM_STRUCTURE\<close>, and
  when one is, the validation raises and the answer is status 500 with code \<^verbatim>\<open>SAVE_ERROR\<close>. An
  empty store has the property; a save, an update and a delete under a password keep it for the
  snapshot as read under that password. After a successful update the stored snapshot holds an
  item whose \<^verbatim>\<open>id\<close> is the path parameter and whose other properties are those of the request.
  The client's push hands \<^verbatim>\<open>saveVaultItems\<close> the items of \<^verbatim>\<open>getAllItems\<close> with every numeric
  identifier turned into its decimal string, so that the validation finds no invalid item.
\<close>

theorem snapshot_operations_keep_string_ids:
  assumes "node_lib_ok lib"
  shows
   "(Null \<notin> set items \<and> \<not> list_all has_string_id items \<longrightarrow>
        post_vault_items lib pw (Some items) now rnd disk st = (Inl (400, ''INVALID_ITEM_STRUCTURE''), st))
    \<and> (Null \<in> set items \<longrightarrow>
        post_vault_items lib pw (Some items) now rnd disk st = (Inl (500, ''SAVE_ERROR''), st))
    \<and> (vault_items st = None \<longrightarrow> string_ids lib pw st)
    \<and> (string_ids lib pw st \<longrightarrow>
         string_ids lib pw (snd (post_vault_items lib pw body now rnd None st))
       \<and> string_ids lib pw (snd (put_vault_item lib pw itemId update rnd st))
       \<and> string_ids lib pw (snd (delete_vault_item lib pw itemId rnd st)))
    \<and> (\<forall>reply. fst (put_vault_item lib pw itemId (Some item) rnd st) = Inr reply \<longrightarrow>
         (\<exists>stored properties.
            stored_items lib pw (snd (put_vault_item lib pw itemId (Some item) rnd st)) = Inr (Array stored) \<and>
            Obj properties \<in> set stored \<and> properties ''id'' = Some (JStr itemId) \<and>
            (\<forall>k w. k \<noteq> ''id'' \<and> item k = Some w \<longrightarrow> properties k = Some w)))
    \<and> (\<forall>r sent db'. syncVaultItemsToServer cj srv db = (r, Some sent, db') \<longrightarrow>
         sent = map (\<lambda>row. (String_nat (fst row), snd row)) (fst (getAllItems cj db)) \<and>
         list_all has_string_id (request_items props sent) \<and>
         array_filter invalid_item (request_items props sent) = Inr [])"
proof (intro conjI allI impI)
  assume "Null \<notin> set items \<and> \<not> list_all has_string_id items"
  then show "post_vault_items lib pw (Some items) now rnd disk st = (Inl (400, ''INVALID_ITEM_STRUCTURE''), st)"
    by (simp add: post_rejects)
next
  assume "Null \<in> set items"
  then show "post_vault_items lib pw (Some items) now rnd disk st = (Inl (500, ''SAVE_ERROR''), st)"
    by (rule post_raises)
next
  assume "vault_items st = None"
  then show "string_ids lib pw st" by (simp add: string_ids_def stored_items_def)
next
  assume "string_ids lib pw st"
  then show "string_ids lib pw (snd (post_vault_items lib pw body now rnd None st))"
    by (rule post_keeps_string_ids [OF assms])
next
  assume "string_ids lib pw st"
  then show "string_ids lib pw (snd (put_vault_item lib pw itemId update rnd st))"
    by (rule put_keeps_string_ids [OF assms])
next
  assume "string_ids lib pw st"
  then show "string_ids lib pw (snd (delete_vault_item lib pw itemId rnd st))"
    by (rule delete_keeps_string_ids [OF assms])
next
  fix reply assume "fst (put_vault_item lib pw itemId (Some item) rnd st) = Inr reply"
  then show "\<exists>stored properties.
            stored_items lib pw (snd (put_vault_item lib pw itemId (Some item) rnd st)) = Inr (Array stored) \<and>
            Obj properties \<in> set stored \<and> properties ''id'' = Some (JStr itemId) \<and>
            (\<forall>k w. k \<noteq> ''id'' \<and> item k = Some w \<longrightarrow> properties k = Some w)"
    by (rule put_forces_id [OF assms])
next
  fix r sent db' assume s: "syncVaultItemsToServer cj srv db = (r, Some sent, db')"
  from pushed_items [OF s]
  show sent: "sent = map (\<lambda>row. (String_nat (fst row), snd row)) (fst (getAllItems cj db))" .
  from request_items_valid [of props "fst (getAllItems cj db)"]
  show valid: "array_filter invalid_item (request_items props sent) = Inr []"
    by (simp only: sent)
  from no_invalid_items(2) [OF valid]
  show "list_all has_string_id (request_items props sent)" .
qed

theorem snapshot_operations_keep_string_ids_example:
  "node_lib_ok toy_node \<and> Null \<notin> set [Obj numbered_item] \<and>
   \<not> list_all has_string_id [Obj numbered_item] \<and>
   post_vault_items toy_node ''Tr0ub4dor&3'' (Some [Obj numbered_item]) 1700000000000 toy_entropy None
     empty_storage = (Inl (400, ''INVALID_ITEM_STRUCTURE''), empty_storage) \<and>
   string_ids toy_node ''Tr0ub4dor&3'' empty_storage \<and>
   string_ids toy_node ''Tr0ub4dor&3''
     (snd (put_vault_item toy_node ''Tr0ub4dor&3'' ''42'' (Some numbered_item) toy_entropy empty_storage))"
proof -
  note h = snapshot_operations_keep_string_ids [OF toy_node_ok, where items = "[Obj numbered_item]"
      and pw = "''Tr0ub4dor&3''" and now = 1700000000000 and rnd = toy_entropy and disk = None
      and st = empty_storage and itemId = "''42''" and update = "Some numbered_item"]
  have n: "Null \<notin> set [Obj numbered_item]" by simp
  have m: "\<not> list_all has_string_id [Obj numbered_item]"
    by (simp add: has_string_id_def numbered_item_def)
  have e: "vault_items empty_storage = None"
    by (simp add: empty_storage_def)
  note rejected = h [THEN conjunct1, THEN mp, OF conjI [OF n m]]
  note start = h [THEN conjunct2, THEN conjunct2, THEN conjunct1, THEN mp, OF e]
  note kept = h [THEN conjunct2, THEN conjunct2, THEN conjunct2, THEN conjunct1, THEN mp, OF start,
      THEN conjunct2, THEN conjunct1]
  from toy_node_ok n m rejected start kept show ?thesis by (simp only: simp_thms)
qed

text \<open>
  \<^bold>\<open>C10\<close>. The save handler is to answer every array that holds an element without a string
  \<^verbatim>\<open>id\<close> with the invalid-item error. For an array that holds \<^verbatim>\<open>null\<close> it does not: the callback
  of the validation reads \<^verbatim>\<open>item.id\<close> without a test of \<^verbatim>\<open>item\<close> (the filter of the
  \<^verbatim>\<open>GET\<close> handler, under the same comment, tests \<^verbatim>\<open>item && typeof item === 'object'\<close> first), the
  TypeError reaches the outer \<^verbatim>\<open>catch\<close>, and the answer is status 500 with code \<^verbatim>\<open>SAVE_ERROR\<close>,
  not status 400 with code \<^verbatim>\<open>INVALID_ITEM_STRUCTURE\<close>. The store stays as it was.
\<close>

theorem null_element_answered_save_error:
  "\<not> has_string_id Null \<and>
   post_vault_items lib pw (Some (before @ Null # rest)) now rnd disk st = (Inl (500, ''SAVE_ERROR''), st) \<and>
   fst (post_vault_items lib pw (Some (before @ Null # rest)) now rnd disk st)
     \<noteq> Inl (400, ''INVALID_ITEM_STRUCTURE'')"
proof -
  have "Null \<in> set (before @ Null # rest)" by simp
  from post_raises [OF this]
  have "post_vault_items lib pw (Some (before @ Null # rest)) now rnd disk st = (Inl (500, ''SAVE_ERROR''), st)" .
  then show ?thesis by (simp add: has_string_id_def)
qed

theorem null_element_answered_save_error_witness:
  "\<not> has_string_id Null \<and>
   post_vault_items toy_node ''Tr0ub4dor&3'' (Some [Null]) 1700000000000 toy_entropy None empty_storage
     = (Inl (500, ''SAVE_ERROR''), empty_storage)"
  using null_element_answered_save_error [of toy_node "''Tr0ub4dor&3''" "[]" "[]" 1700000000000
      toy_entropy None empty_storage]
  by simp

subsection \<open>Saving the snapshot\<close>























text \<open>Six backups made within five milliseconds of each other: the oldest is removed. And
  the same with the oldest replaced by one from before September 2001, whose time has twelve
  digits: its name is the greatest, so it is kept and the oldest of the others is removed.\<close>

lemma backup_names:
  "backup_name 999999999999 = ''vault-items-backup-999999999999.enc''"
  "backup_name 1700000000000 = ''vault-items-backup-1700000000000.enc''"
  "backup_name 1700000000001 = ''vault-items-backup-1700000000001.enc''"
  "backup_name 1700000000002 = ''vault-items-backup-1700000000002.enc''"
  "backup_name 1700000000003 = ''vault-items-backup-1700000000003.enc''"
  "backup_name 1700000000004 = ''vault-items-backup-1700000000004.enc''"
  "backup_name 1700000000005 = ''vault-items-backup-1700000000005.enc''"
  "backup_name 1699990000001 = ''vault-items-backup-1699990000001.enc''"
  "backup_name 1699990000002 = ''vault-items-backup-1699990000002.enc''"
  "backup_name 1699990000003 = ''vault-items-backup-1699990000003.enc''"
  "backup_name 1699990000004 = ''vault-items-backup-1699990000004.enc''"
  "backup_name 1699990000005 = ''vault-items-backup-1699990000005.enc''"
  by (simp_all add: backup_name_def String_nat.simps)

lemma cleanup_backups_examples:
  "cleanup_backups
     [(1700000000000, torn_file), (1700000000001, torn_file), (1700000000002, torn_file),
      (1700000000003, torn_file), (1700000000004, torn_file), (1700000000005, torn_file)]
   = [(1700000000001, torn_file), (1700000000002, torn_file),
      (1700000000003, torn_file), (1700000000004, torn_file), (1700000000005, torn_file)]"
  "cleanup_backups
     [(999999999999, torn_file), (1700000000001, torn_file), (1700000000002, torn_file),
      (1700000000003, torn_file), (1700000000004, torn_file), (1700000000005, torn_file)]
   = [(999999999999, torn_file), (1700000000002, torn_file),
      (1700000000003, torn_file), (1700000000004, torn_file), (1700000000005, torn_file)]"
  by (simp_all add: cleanup_backups_def backup_names Let_def)







section \<open>The file server: files\<close>

lemma torn_file_message:
  "\<not> str_includes ''vault-storage/files/0b9d2c1e-7a54-4c3f-9e21-5d6f7a8b9c0d.enc: Unexpected token x in JSON at position 0'' ''decrypt''"
  by code_simp

lemma get_file_with_metadata:
  assumes "node_lib_ok lib" and "10 \<le> length fileId"
    and "metadata st fileId = Some (Json (FileEncryption_encrypt lib rnd' (metadata_to_JSON lib m) pw))"
    and "files st fileId = Some found"
  shows "get_file lib pw fileId st =
     (case found of
        Garbled message \<Rightarrow>
          Inl (if str_includes message ''decrypt'' then (401, ''DECRYPTION_ERROR'')
               else (500, ''DOWNLOAD_ERROR''))
      | Json enc \<Rightarrow>
          (case FileEncryption_decrypt lib enc pw of
             Inl message \<Rightarrow>
               Inl (if str_includes message ''decrypt'' then (401, ''DECRYPTION_ERROR'')
                    else (500, ''DOWNLOAD_ERROR''))
           | Inr text \<Rightarrow>
               if m_checksum m \<noteq> [] \<and> SHA256 lib text \<noteq> m_checksum m
               then Inl (500, ''INTEGRITY_ERROR'')
               else Inr \<lparr>content = buffer_of_base64 lib text, content_type = m_type m,
                         filename = m_name m\<rparr>))"
proof -
  have p: "metadata_of_JSON lib (metadata_to_JSON lib m) = Inr m"
    using assms(1) by (simp add: node_lib_ok_def)
  show ?thesis
    using assms(2-4)
    by (simp add: get_file_def download_try_def retryOperation_same readJson_def
        FileEncryption_roundtrip [OF assms(1)] p Let_def
        split: disk_file.splits sum.splits)
qed

lemma upload_file_stored:
  assumes "upload_file lib pw (Some f) d c fileId now rnd rnd' st = (Inr reply, st1)"
  shows "\<exists>m. files st1 fileId = Some (Json (FileEncryption_encrypt lib rnd (base64_of_buffer lib (buffer f)) pw))
       \<and> metadata st1 fileId = Some (Json (FileEncryption_encrypt lib rnd' (metadata_to_JSON lib m) pw))
       \<and> m_checksum m = SHA256 lib (base64_of_buffer lib (buffer f))
       \<and> m_type m = mimetype f \<and> m_name m = originalname f \<and> m_size m = file_size f"
  using assms
  by (auto simp: upload_file_def Let_def split: if_splits)

lemma get_file_after_upload:
  assumes "node_lib_ok lib" and "10 \<le> length fileId"
    and "upload_file lib pw (Some f) d c fileId now rnd rnd' st = (Inr reply, st1)"
  shows "get_file lib pw fileId (st1\<lparr>files := (files st1)(fileId \<mapsto> found)\<rparr>) =
     (case found of
        Garbled message \<Rightarrow>
          Inl (if str_includes message ''decrypt'' then (401, ''DECRYPTION_ERROR'')
               else (500, ''DOWNLOAD_ERROR''))
      | Json enc \<Rightarrow>
          (case FileEncryption_decrypt lib enc pw of
             Inl message \<Rightarrow>
               Inl (if str_includes message ''decrypt'' then (401, ''DECRYPTION_ERROR'')
                    else (500, ''DOWNLOAD_ERROR''))
           | Inr text \<Rightarrow>
               if SHA256 lib text \<noteq> SHA256 lib (base64_of_buffer lib (buffer f))
               then Inl (500, ''INTEGRITY_ERROR'')
               else Inr \<lparr>content = buffer_of_base64 lib text, content_type = mimetype f,
                         filename = originalname f\<rparr>))"
proof -
  from upload_file_stored [OF assms(3)] obtain m where
    m: "metadata st1 fileId = Some (Json (FileEncryption_encrypt lib rnd' (metadata_to_JSON lib m) pw))"
      "m_checksum m = SHA256 lib (base64_of_buffer lib (buffer f))"
      "m_type m = mimetype f" "m_name m = originalname f"
    by blast
  have ne: "SHA256 lib (base64_of_buffer lib (buffer f)) \<noteq> []"
    using assms(1) by (simp add: node_lib_ok_def)
  let ?st2 = "st1\<lparr>files := (files st1)(fileId \<mapsto> found)\<rparr>"
  have "metadata ?st2 fileId = Some (Json (FileEncryption_encrypt lib rnd' (metadata_to_JSON lib m) pw))"
    and "files ?st2 fileId = Some found"
    using m(1) by simp_all
  from get_file_with_metadata [OF assms(1,2) this] m(2-4) ne show ?thesis
    by (simp split: disk_file.splits sum.splits)
qed

lemma get_file_intact:
  assumes "node_lib_ok lib" and "10 \<le> length fileId"
    and "upload_file lib pw (Some f) d c fileId now rnd rnd' st = (Inr reply, st1)"
  shows "get_file lib pw fileId st1 =
     Inr \<lparr>content = buffer f, content_type = mimetype f, filename = originalname f\<rparr>"
proof -
  let ?enc = "FileEncryption_encrypt lib rnd (base64_of_buffer lib (buffer f)) pw"
  from upload_file_stored [OF assms(3)] have "files st1 fileId = Some (Json ?enc)" by blast
  then have "st1\<lparr>files := (files st1)(fileId \<mapsto> Json ?enc)\<rparr> = st1"
    by (simp add: fun_upd_idem)
  moreover have "buffer_of_base64 lib (base64_of_buffer lib (buffer f)) = buffer f"
    using assms(1) by (simp add: node_lib_ok_def)
  ultimately show ?thesis
    using get_file_after_upload [OF assms, of "Json ?enc"]
    by (simp add: FileEncryption_roundtrip [OF assms(1)])
qed

text \<open>
  \<^bold>\<open>C6\<close> (as amended). After a successful upload the download under the same password
  returns the uploaded bytes. With anything else in place of the stored encrypted body (a body
  with one byte changed among them):
  \<^item> a download that succeeds sends the decoding of a text that has the SHA-256 checksum of the
    uploaded one, hence the uploaded bytes unless two texts share a checksum;
  \<^item> the download fails with \<^verbatim>\<open>INTEGRITY_ERROR\<close> exactly when the body still parses as JSON and
    decrypts to a text whose checksum differs from the stored one;
  \<^item> when the body no longer parses as the JSON of an encrypted file, or when decrypting it
    raises (crypto-js raises \<^verbatim>\<open>Malformed UTF-8 data\<close> on bytes that are no UTF-8), the download
    fails with \<^verbatim>\<open>DOWNLOAD_ERROR\<close>, or with \<^verbatim>\<open>DECRYPTION_ERROR\<close> if the message of the error
    contains \<^verbatim>\<open>decrypt\<close>.
\<close>

theorem download_after_corruption:
  assumes "node_lib_ok lib"
    and "upload_file lib pw (Some f) d c fileId now rnd rnd' st = (Inr reply, st1)"
    and "10 \<le> length fileId"
  shows
   "get_file lib pw fileId st1 =
      Inr \<lparr>content = buffer f, content_type = mimetype f, filename = originalname f\<rparr>
    \<and> (\<forall>found got.
          get_file lib pw fileId (st1\<lparr>files := (files st1)(fileId \<mapsto> found)\<rparr>) = Inr got \<longrightarrow>
          (\<exists>enc text. found = Json enc \<and> FileEncryption_decrypt lib enc pw = Inr text \<and>
             SHA256 lib text = SHA256 lib (base64_of_buffer lib (buffer f)) \<and>
             content got = buffer_of_base64 lib text \<and>
             (text = base64_of_buffer lib (buffer f) \<longrightarrow> content got = buffer f)))
    \<and> (\<forall>found.
          (get_file lib pw fileId (st1\<lparr>files := (files st1)(fileId \<mapsto> found)\<rparr>)
             = Inl (500, ''INTEGRITY_ERROR'')) =
          (\<exists>enc text. found = Json enc \<and> FileEncryption_decrypt lib enc pw = Inr text \<and>
             SHA256 lib text \<noteq> SHA256 lib (base64_of_buffer lib (buffer f))))
    \<and> (\<forall>message.
          get_file lib pw fileId (st1\<lparr>files := (files st1)(fileId \<mapsto> Garbled message)\<rparr>)
            = Inl (if str_includes message ''decrypt'' then (401, ''DECRYPTION_ERROR'')
                   else (500, ''DOWNLOAD_ERROR'')))
    \<and> (\<forall>enc message. FileEncryption_decrypt lib enc pw = Inl message \<longrightarrow>
          get_file lib pw fileId (st1\<lparr>files := (files st1)(fileId \<mapsto> Json enc)\<rparr>)
            = Inl (if str_includes message ''decrypt'' then (401, ''DECRYPTION_ERROR'')
                   else (500, ''DOWNLOAD_ERROR'')))"
proof -
  note after = get_file_after_upload [OF assms(1,3,2)]
  have b: "buffer_of_base64 lib (base64_of_buffer lib (buffer f)) = buffer f"
    using assms(1) by (simp add: node_lib_ok_def)
  have sent: "\<exists>enc text. found = Json enc \<and> FileEncryption_decrypt lib enc pw = Inr text \<and>
             SHA256 lib text = SHA256 lib (base64_of_buffer lib (buffer f)) \<and>
             content got = buffer_of_base64 lib text \<and>
             (text = base64_of_buffer lib (buffer f) \<longrightarrow> content got = buffer f)"
    if "get_file lib pw fileId (st1\<lparr>files := (files st1)(fileId \<mapsto> found)\<rparr>) = Inr got"
    for found got
    using that b unfolding after
    by (auto split: disk_file.splits sum.splits if_splits)
  have integrity: "(get_file lib pw fileId (st1\<lparr>files := (files st1)(fileId \<mapsto> found)\<rparr>)
             = Inl (500, ''INTEGRITY_ERROR'')) =
          (\<exists>enc text. found = Json enc \<and> FileEncryption_decrypt lib enc pw = Inr text \<and>
             SHA256 lib text \<noteq> SHA256 lib (base64_of_buffer lib (buffer f)))"
    for found
    unfolding after by (auto split: disk_file.splits sum.splits if_splits)
  have garbled: "get_file lib pw fileId (st1\<lparr>files := (files st1)(fileId \<mapsto> Garbled message)\<rparr>)
            = Inl (if str_includes message ''decrypt'' then (401, ''DECRYPTION_ERROR'')
                   else (500, ''DOWNLOAD_ERROR''))"
    for message
    unfolding after by simp
  have raised: "get_file lib pw fileId (st1\<lparr>files := (files st1)(fileId \<mapsto> Json enc)\<rparr>)
            = Inl (if str_includes message ''decrypt'' then (401, ''DECRYPTION_ERROR'')
                   else (500, ''DOWNLOAD_ERROR''))"
    if "FileEncryption_decrypt lib enc pw = Inl message" for enc message
    unfolding after using that by simp
  from get_file_intact [OF assms(1,3,2)] sent integrity garbled raised show ?thesis
    by blast
qed

lemma hello_uploaded:
  "\<exists>st1. upload_file toy_node ''Tr0ub4dor&3'' (Some hello_file) None None hello_id 1700000000000
      toy_entropy toy_entropy empty_storage =
     (Inr \<lparr>up_fileId = hello_id, up_name = ''hello.txt'', up_size = 12, up_type = ''text/plain''\<rparr>, st1)"
  by (simp add: upload_file_def hello_file_def Let_def)

lemma hello_id_long: "10 \<le> length hello_id"
  by (simp add: hello_id_def)

theorem download_after_corruption_witness:
  "node_lib_ok toy_node \<and> 10 \<le> length hello_id \<and>
   fst (upload_file toy_node ''Tr0ub4dor&3'' (Some hello_file) None None hello_id 1700000000000
          toy_entropy toy_entropy empty_storage)
     = Inr \<lparr>up_fileId = hello_id, up_name = ''hello.txt'', up_size = 12, up_type = ''text/plain''\<rparr> \<and>
   get_file toy_node ''Tr0ub4dor&3'' hello_id
     (snd (upload_file toy_node ''Tr0ub4dor&3'' (Some hello_file) None None hello_id 1700000000000
          toy_entropy toy_entropy empty_storage))
     = Inr \<lparr>content = ''Hello, vault'', content_type = ''text/plain'', filename = ''hello.txt''\<rparr>"
proof -
  from hello_uploaded obtain st1 where
    u: "upload_file toy_node ''Tr0ub4dor&3'' (Some hello_file) None None hello_id 1700000000000
      toy_entropy toy_entropy empty_storage =
     (Inr \<lparr>up_fileId = hello_id, up_name = ''hello.txt'', up_size = 12, up_type = ''text/plain''\<rparr>, st1)"
    by blast
  from download_after_corruption [OF toy_node_ok u hello_id_long, THEN conjunct1]
  have "get_file toy_node ''Tr0ub4dor&3'' hello_id st1
     = Inr \<lparr>content = ''Hello, vault'', content_type = ''text/plain'', filename = ''hello.txt''\<rparr>"
    by (simp add: hello_file_def)
  with u toy_node_ok hello_id_long show ?thesis by simp
qed

text \<open>The claim as it reads fails when the changed byte breaks the JSON of the stored body
  (its first brace, say): the download fails, but with \<^verbatim>\<open>DOWNLOAD_ERROR\<close>.\<close>

theorem garbled_body_download_error_counterexample:
  "fst (upload_file toy_node ''Tr0ub4dor&3'' (Some hello_file) None None hello_id 1700000000000
          toy_entropy toy_entropy empty_storage)
     = Inr \<lparr>up_fileId = hello_id, up_name = ''hello.txt'', up_size = 12, up_type = ''text/plain''\<rparr> \<and>
   get_file toy_node ''Tr0ub4dor&3'' hello_id
     ((snd (upload_file toy_node ''Tr0ub4dor&3'' (Some hello_file) None None hello_id 1700000000000
          toy_entropy toy_entropy empty_storage))
        \<lparr>files := (files (snd (upload_file toy_node ''Tr0ub4dor&3'' (Some hello_file) None None
            hello_id 1700000000000 toy_entropy toy_entropy empty_storage)))(hello_id \<mapsto> torn_file)\<rparr>)
     = Inl (500, ''DOWNLOAD_ERROR'')"
proof -
  from hello_uploaded obtain st1 where
    u: "upload_file toy_node ''Tr0ub4dor&3'' (Some hello_file) None None hello_id 1700000000000
      toy_entropy toy_entropy empty_storage =
     (Inr \<lparr>up_fileId = hello_id, up_name = ''hello.txt'', up_size = 12, up_type = ''text/plain''\<rparr>, st1)"
    by blast
  from get_file_after_upload [OF toy_node_ok hello_id_long u, of torn_file] u torn_file_message
  show ?thesis by (simp add: torn_file_def)
qed

end
